theory Spec2Isabelle
  imports Main
begin

section \<open>The project explorer of examples/project-explorer.py\<close>

text \<open>
  The script drives a session of a post-production application through a generated REST
  client. The client library is imported, not defined, by the script: it is a parameter of
  this development (record \<open>client\<close>), each endpoint a function from the state of the
  remote session to a result and the next state. Exceptions are values: every call returns
  \<open>exn + 'a\<close>, with \<open>Inl\<close> the exception raised. Console output has no effect on
  what the script computes and is left out; an expression that is evaluated only to be
  printed is kept where evaluating it can raise. The exceptions are those of class
  \<open>Exception\<close>, which \<open>except Exception\<close> catches; an interrupt of the interpreter
  is not a behaviour of the client. The operations are modelled on a console that accepts
  what they print; a console that refuses it is modelled where the workflow as a whole is
  concerned (\<open>browse_project_printing\<close>).
\<close>

subsection \<open>Objects of the client library\<close>

record api_exception =
  status :: int
  reason :: string
  body :: "string option"

datatype exn =
    ApiException api_exception
  | AttributeError
  | OtherError string

record system_properties =
  system_name :: string
  version :: string
  build :: string

record project =
  project_name :: string
  project_modified :: string

record group =
  group_uuid :: string
  group_name :: string
  group_active :: bool
  group_constructs :: "string list"

text \<open>
  Attributes the script reads through \<open>safe_get_attr\<close> are optional: \<open>None\<close> is an
  object without the attribute. Attributes it reads directly (\<open>shot.uuid\<close>,
  \<open>shot.name\<close>) are plain fields.
\<close>

record shot =
  shot_uuid :: string
  shot_name :: string
  shot_file :: "string option"
  shot_length :: "int option"
  shot_timecode :: "string option"

record slot =
  shots :: "shot list option"

record resolution =
  res_w :: "string option"
  res_h :: "string option"

record construct =
  construct_name :: "string option"
  construct_resolution :: "resolution option"
  construct_fps :: "int option"
  slots :: "slot list option"

record queue_item =
  item_name :: "string option"
  item_status :: "string option"
  frames_done :: "int option"
  frames_total :: "int option"

record image_snapshot =
  snapshot_uuid :: string
  snapshot_frame :: int
  snapshot_proxy :: bool

record playmode_data =
  mode :: string
  loop :: string
  audio :: string
  speed :: int
  play_range :: bool

record http_response =
  headers :: "string \<rightharpoonup> string"
  data :: "string option"

subsection \<open>The client and the world the script runs in\<close>

text \<open>
  One field for each endpoint the script calls, named after the API object and its method.
  \<open>json_loads\<close> stands for \<open>json.loads(b.decode('utf-8'))\<close>: the script does not
  import \<open>json\<close> itself, the name reaches it through the star imports of the client
  library; the parsed document is only printed, so the result is \<open>unit\<close>.
\<close>

record 's client =
  system_api_get_system_properties :: "'s \<Rightarrow> (exn + system_properties) \<times> 's"
  application_api_do_application_project_exit :: "'s \<Rightarrow> (exn + unit) \<times> 's"
  application_api_do_application_project_enter :: "string \<Rightarrow> 's \<Rightarrow> (exn + unit) \<times> 's"
  projects_api_get_projects_current :: "'s \<Rightarrow> (exn + project) \<times> 's"
  projects_api_get_groups :: "string \<Rightarrow> 's \<Rightarrow> (exn + group list) \<times> 's"
  projects_api_select_group :: "string \<Rightarrow> string \<Rightarrow> 's \<Rightarrow> (exn + group) \<times> 's"
  projects_api_get_constructs_current :: "string \<Rightarrow> 's \<Rightarrow> (exn + construct) \<times> 's"
  application_api_do_application_render_snapshot ::
    "image_snapshot \<Rightarrow> 's \<Rightarrow> (exn + http_response) \<times> 's"
  application_api_get_application_render_queue :: "'s \<Rightarrow> (exn + queue_item list) \<times> 's"
  application_api_do_application_player_enter_timeline ::
    "string \<Rightarrow> 's \<Rightarrow> (exn + unit) \<times> 's"
  application_api_do_application_player_enter_timeline_current :: "'s \<Rightarrow> (exn + unit) \<times> 's"
  application_api_set_application_player_playmode ::
    "playmode_data \<Rightarrow> 's \<Rightarrow> (exn + unit) \<times> 's"
  json_loads :: "string \<Rightarrow> exn + unit"

datatype call =
    GetSystemProperties
  | ProjectExit
  | ProjectEnter string
  | GetProjectsCurrent
  | GetGroups string
  | SelectGroup string string
  | GetConstructsCurrent string
  | RenderSnapshot image_snapshot
  | GetRenderQueue
  | PlayerEnterTimeline string
  | PlayerEnterTimelineCurrent
  | SetPlaymode playmode_data

text \<open>
  What \<open>with open(path, 'wb') as f: f.write(data)\<close> can do: store the data, raise
  \<open>OSError\<close> from \<open>open\<close> and leave the files as they are, or open the file and
  raise from the write after some of the bytes.
\<close>

datatype write_result = Stored | Refused | Cut nat

text \<open>
  The world: the remote session, the requests issued so far (each with the exception it
  raised, if any), the files written, the reading of the clock as
  \<open>datetime.now().strftime("%Y%m%d_%H%M%S")\<close> gives it, the three attributes of the
  explorer object, what the file system does with a write of given data to a given path,
  and the writes attempted so far, each with what came of it.
\<close>

record 's world =
  remote :: 's
  calls :: "(call \<times> exn option) list"
  files :: "string \<rightharpoonup> string"
  now :: string
  current_project :: "project option"
  current_group :: "group option"
  current_construct :: "construct option"
  disk :: "string \<Rightarrow> string \<Rightarrow> write_result"
  writes :: "(string \<times> write_result) list"

definition invoke ::
  "call \<Rightarrow> ('s \<Rightarrow> (exn + 'a) \<times> 's) \<Rightarrow> 's world \<Rightarrow> (exn + 'a) \<times> 's world" where
  "invoke c f w =
     (case f (remote w) of (r, s') \<Rightarrow>
        (r, w\<lparr>remote := s',
              calls := calls w @ [(c, case r of Inl e \<Rightarrow> Some e | Inr _ \<Rightarrow> None)]\<rparr>))"

definition and_then ::
  "('w \<Rightarrow> (exn + 'a) \<times> 'w) \<Rightarrow> ('a \<Rightarrow> 'w \<Rightarrow> (exn + 'b) \<times> 'w) \<Rightarrow> 'w \<Rightarrow> (exn + 'b) \<times> 'w" where
  "and_then m f w = (case m w of (Inl e, w') \<Rightarrow> (Inl e, w') | (Inr x, w') \<Rightarrow> f x w')"

definition return :: "'a \<Rightarrow> 'w \<Rightarrow> (exn + 'a) \<times> 'w" where
  "return x w = (Inr x, w)"

subsection \<open>Helpers\<close>

definition safe_get_attr :: "'o option \<Rightarrow> ('o \<Rightarrow> 'v option) \<Rightarrow> 'v \<Rightarrow> 'v" where
  "safe_get_attr obj attr_name dflt =
     (case obj of
        None \<Rightarrow> dflt
      | Some ob \<Rightarrow> (case attr_name ob of None \<Rightarrow> dflt | Some v \<Rightarrow> v))"

text \<open>
  The statement \<open>if e.body: error_dict = json.loads(e.body.decode('utf-8')); print(...)\<close>
  of three handlers: the exception it raises, if any. An absent and an empty body are falsy.
\<close>

definition dump_body :: "'s client \<Rightarrow> api_exception \<Rightarrow> exn option" where
  "dump_body C e =
     (case body e of
        None \<Rightarrow> None
      | Some b \<Rightarrow>
          if b = [] then None
          else (case json_loads C b of Inl x \<Rightarrow> Some x | Inr _ \<Rightarrow> None))"

subsection \<open>Collecting the shots of the current timeline\<close>

record shot_info =
  info_uuid :: string
  info_name :: string
  slot_idx :: nat
  version_idx :: nat
  info_file :: string
  info_length :: int
  info_timecode :: string

definition make_shot_info :: "nat \<Rightarrow> nat \<Rightarrow> shot \<Rightarrow> shot_info" where
  "make_shot_info si vi sh =
     \<lparr>info_uuid = shot_uuid sh, info_name = shot_name sh, slot_idx = si, version_idx = vi,
      info_file = safe_get_attr (Some sh) shot_file ''N/A'',
      info_length = safe_get_attr (Some sh) shot_length 0,
      info_timecode = safe_get_attr (Some sh) shot_timecode ''00:00:00:00''\<rparr>"

text \<open>The inner and the outer loop of \<open>get_all_shots\<close>, with their \<open>enumerate\<close> counters.\<close>

fun collect_versions :: "nat \<Rightarrow> nat \<Rightarrow> shot list \<Rightarrow> shot_info list \<Rightarrow> shot_info list" where
  "collect_versions si vi [] all_shots = all_shots"
| "collect_versions si vi (sh # rest) all_shots =
     collect_versions si (Suc vi) rest (all_shots @ [make_shot_info si vi sh])"

fun collect_slots :: "nat \<Rightarrow> slot list \<Rightarrow> shot_info list \<Rightarrow> shot_info list" where
  "collect_slots si [] all_shots = all_shots"
| "collect_slots si (sl # rest) all_shots =
     collect_slots (Suc si) rest
       (collect_versions si 0 (safe_get_attr (Some sl) shots []) all_shots)"

definition get_all_shots :: "'s client \<Rightarrow> 's world \<Rightarrow> (exn + shot_info list) \<times> 's world" where
  "get_all_shots C w =
     (case invoke (GetConstructsCurrent ''ALL'')
             (projects_api_get_constructs_current C ''ALL'') w of
        (Inr c, w') \<Rightarrow> (Inr (collect_slots 0 (safe_get_attr (Some c) slots []) []), w')
      | (Inl (ApiException e), w') \<Rightarrow> (Inr [], w')
      | (Inl x, w') \<Rightarrow> (Inl x, w'))"

subsection \<open>The other operations of the explorer\<close>

text \<open>
  \<open>get_system_info\<close>: the handler prints the body of the error when there is one and
  raises the error again; an exception raised while the body is parsed replaces it.
\<close>

definition get_system_info ::
  "'s client \<Rightarrow> 's world \<Rightarrow> (exn + system_properties) \<times> 's world" where
  "get_system_info C w =
     (case invoke GetSystemProperties (system_api_get_system_properties C) w of
        (Inr system, w') \<Rightarrow> (Inr system, w')
      | (Inl (ApiException e), w') \<Rightarrow>
          (case dump_body C e of
             Some x \<Rightarrow> (Inl x, w')
           | None \<Rightarrow> (Inl (ApiException e), w'))
      | (Inl x, w') \<Rightarrow> (Inl x, w'))"

text \<open>
  \<open>enter_project\<close>: the first \<open>try\<close> leaves whatever project is open and drops an
  \<open>ApiException\<close>; the second enters the project and fetches the current one.
\<close>

definition enter_project ::
  "'s client \<Rightarrow> string \<Rightarrow> 's world \<Rightarrow> (exn + project) \<times> 's world" where
  "enter_project C pname w =
     (case invoke ProjectExit (application_api_do_application_project_exit C) w of
        (Inl (OtherError m), w1) \<Rightarrow> (Inl (OtherError m), w1)
      | (Inl AttributeError, w1) \<Rightarrow> (Inl AttributeError, w1)
      | (_, w1) \<Rightarrow>
          (case and_then
                  (invoke (ProjectEnter pname)
                     (application_api_do_application_project_enter C pname))
                  (\<lambda>_. invoke GetProjectsCurrent (projects_api_get_projects_current C)) w1 of
             (Inr current, w2) \<Rightarrow> (Inr current, w2)
           | (Inl (ApiException e), w2) \<Rightarrow>
               (case dump_body C e of
                  Some x \<Rightarrow> (Inl x, w2)
                | None \<Rightarrow> (Inl (ApiException e), w2))
           | (Inl x, w2) \<Rightarrow> (Inl x, w2)))"

text \<open>
  \<open>get_groups\<close>: the handler parses the body of the error without testing that there is
  one; \<open>e.body.decode\<close> on \<open>None\<close> raises \<open>AttributeError\<close>. Only when the body parses
  does the handler reach \<open>return []\<close>.
\<close>

definition get_groups ::
  "'s client \<Rightarrow> bool \<Rightarrow> 's world \<Rightarrow> (exn + group list) \<times> 's world" where
  "get_groups C detailed w =
     (let level = (if detailed then ''ALL'' else []) in
      case invoke (GetGroups level) (projects_api_get_groups C level) w of
        (Inr groups, w') \<Rightarrow> (Inr groups, w')
      | (Inl (ApiException e), w') \<Rightarrow>
          (case body e of
             None \<Rightarrow> (Inl AttributeError, w')
           | Some b \<Rightarrow>
               (case json_loads C b of
                  Inl x \<Rightarrow> (Inl x, w')
                | Inr _ \<Rightarrow> (Inr [], w')))
      | (Inl x, w') \<Rightarrow> (Inl x, w'))"

definition select_group ::
  "'s client \<Rightarrow> string \<Rightarrow> 's world \<Rightarrow> (exn + group) \<times> 's world" where
  "select_group C guuid w =
     (case invoke (SelectGroup guuid ''ALL'') (projects_api_select_group C guuid ''ALL'') w of
        (Inr result, w') \<Rightarrow> (Inr result, w'\<lparr>current_group := Some result\<rparr>)
      | (Inl x, w') \<Rightarrow> (Inl x, w'))"

definition get_current_construct ::
  "'s client \<Rightarrow> 's world \<Rightarrow> (exn + construct) \<times> 's world" where
  "get_current_construct C w =
     (case invoke (GetConstructsCurrent ''ALL'')
             (projects_api_get_constructs_current C ''ALL'') w of
        (Inr c, w') \<Rightarrow> (Inr c, w'\<lparr>current_construct := Some c\<rparr>)
      | (Inl x, w') \<Rightarrow> (Inl x, w'))"

text \<open>The two file names the script builds, and \<open>str\<close> of a loop counter.\<close>

definition thumbnail_path :: "string \<Rightarrow> string \<Rightarrow> string" where
  "thumbnail_path suuid timestamp =
     ''/tmp/thumbnail_'' @ take 8 suuid @ ''_'' @ timestamp @ ''.jpg''"

function str_nat :: "nat \<Rightarrow> string" where
  "str_nat n =
     (if n < 10 then [''0123456789'' ! n]
      else str_nat (n div 10) @ [''0123456789'' ! (n mod 10)])"
  by pat_completeness auto
termination
  by (relation "measure id") auto

definition project_thumb_path :: "nat \<Rightarrow> string \<Rightarrow> string" where
  "project_thumb_path i suuid =
     ''/tmp/project_thumb_'' @ str_nat i @ ''_'' @ take 8 suuid @ ''.jpg''"

text \<open>
  The statement \<open>with open(output_path, 'wb') as f: f.write(response.data)\<close>. The
  \<open>OSError\<close> it can raise is not an \<open>ApiException\<close>: it leaves the function that
  writes.
\<close>

definition write_file :: "string \<Rightarrow> string \<Rightarrow> 's world \<Rightarrow> (exn + unit) \<times> 's world" where
  "write_file path bytes w =
     (case disk w path bytes of
        Stored \<Rightarrow>
          (Inr (), w\<lparr>files := (files w)(path \<mapsto> bytes),
                     writes := writes w @ [(path, Stored)]\<rparr>)
      | Refused \<Rightarrow>
          (Inl (OtherError ''OSError''), w\<lparr>writes := writes w @ [(path, Refused)]\<rparr>)
      | Cut k \<Rightarrow>
          (Inl (OtherError ''OSError''),
           w\<lparr>files := (files w)(path \<mapsto> take k bytes),
             writes := writes w @ [(path, Cut k)]\<rparr>))"

text \<open>
  \<open>generate_thumbnail\<close>: the file is written when the response says \<open>image/jpeg\<close> and has
  a \<open>data\<close> attribute; the path is returned whenever neither the call nor the write
  raised; \<open>None\<close> is returned on an \<open>ApiException\<close>.
\<close>

definition generate_thumbnail ::
  "'s client \<Rightarrow> string \<Rightarrow> int \<Rightarrow> string option \<Rightarrow> 's world
     \<Rightarrow> (exn + string option) \<times> 's world" where
  "generate_thumbnail C suuid frame output_path w =
     (let path = (case output_path of
                    None \<Rightarrow> thumbnail_path suuid (now w)
                  | Some p \<Rightarrow> p);
          snapshot = \<lparr>snapshot_uuid = suuid, snapshot_frame = frame, snapshot_proxy = True\<rparr>
      in case invoke (RenderSnapshot snapshot)
                (application_api_do_application_render_snapshot C snapshot) w of
           (Inr response, w') \<Rightarrow>
             (if headers response ''Content-Type'' = Some ''image/jpeg''
              then (case data response of
                      Some bytes \<Rightarrow>
                        (case write_file path bytes w' of
                           (Inl x, w'') \<Rightarrow> (Inl x, w'')
                         | (Inr _, w'') \<Rightarrow> (Inr (Some path), w''))
                    | None \<Rightarrow> (Inr (Some path), w'))
              else (Inr (Some path), w'))
         | (Inl (ApiException e), w') \<Rightarrow> (Inr None, w')
         | (Inl x, w') \<Rightarrow> (Inl x, w'))"

definition get_render_queue ::
  "'s client \<Rightarrow> 's world \<Rightarrow> (exn + queue_item list) \<times> 's world" where
  "get_render_queue C w =
     (case invoke GetRenderQueue (application_api_get_application_render_queue C) w of
        (Inr queue, w') \<Rightarrow> (if queue = [] then (Inr [], w') else (Inr queue, w'))
      | (Inl (ApiException e), w') \<Rightarrow> (Inr [], w')
      | (Inl x, w') \<Rightarrow> (Inl x, w'))"

definition enter_player ::
  "'s client \<Rightarrow> string option \<Rightarrow> 's world \<Rightarrow> (exn + unit) \<times> 's world" where
  "enter_player C construct_uuid w =
     (case construct_uuid of
        Some u \<Rightarrow>
          (if u \<noteq> []
           then invoke (PlayerEnterTimeline u)
                  (application_api_do_application_player_enter_timeline C u) w
           else invoke PlayerEnterTimelineCurrent
                  (application_api_do_application_player_enter_timeline_current C) w)
      | None \<Rightarrow>
          invoke PlayerEnterTimelineCurrent
            (application_api_do_application_player_enter_timeline_current C) w)"

definition set_playback_mode ::
  "'s client \<Rightarrow> string \<Rightarrow> int option \<Rightarrow> string \<Rightarrow> 's world \<Rightarrow> (exn + unit) \<times> 's world" where
  "set_playback_mode C m frame l w =
     (let playmode = \<lparr>mode = m, loop = l, audio = ''ON'', speed = 1, play_range = False\<rparr>
      in invoke (SetPlaymode playmode)
           (application_api_set_application_player_playmode C playmode) w)"

subsection \<open>The workflow\<close>

text \<open>
  The loop over \<open>enumerate(shots[:5])\<close>: \<open>i\<close> is the counter, \<open>thumbnails\<close> the list
  of results that are truthy.
\<close>

fun thumbnail_loop ::
  "'s client \<Rightarrow> nat \<Rightarrow> shot_info list \<Rightarrow> string list \<Rightarrow> 's world
     \<Rightarrow> (exn + string list) \<times> 's world" where
  "thumbnail_loop C i [] thumbnails w = (Inr thumbnails, w)"
| "thumbnail_loop C i (sh # rest) thumbnails w =
     (case generate_thumbnail C (info_uuid sh) 0
             (Some (project_thumb_path i (info_uuid sh))) w of
        (Inl x, w') \<Rightarrow> (Inl x, w')
      | (Inr result, w') \<Rightarrow>
          thumbnail_loop C (Suc i) rest
            (case result of
               None \<Rightarrow> thumbnails
             | Some p \<Rightarrow> if p = [] then thumbnails else thumbnails @ [p]) w')"

text \<open>
  The choice of the group: \<open>if target_group_name:\<close> is false for \<open>None\<close> and for the
  empty string; \<open>next((g for g in groups if g.name == target_group_name), None)\<close> is the first
  match; \<open>groups[-1]\<close> is the last element of a list known to be non-empty.
\<close>

definition target_group :: "string option \<Rightarrow> group list \<Rightarrow> group option" where
  "target_group target_group_name groups =
     (case target_group_name of
        None \<Rightarrow> Some (last groups)
      | Some n \<Rightarrow>
          if n = [] then Some (last groups)
          else find (\<lambda>g. group_name g = n) groups)"

text \<open>The body of the \<open>try\<close> of \<open>browse_project\<close>.\<close>

definition browse_steps ::
  "'s client \<Rightarrow> string \<Rightarrow> string option \<Rightarrow> 's world \<Rightarrow> (exn + bool) \<times> 's world" where
  "browse_steps C pname target_group_name =
     and_then (get_system_info C) (\<lambda>_.
     and_then (enter_project C pname) (\<lambda>_.
     and_then (get_groups C True) (\<lambda>groups.
       if groups = [] then return False
       else
         (case target_group target_group_name groups of
            None \<Rightarrow> return False
          | Some tg \<Rightarrow>
              and_then (select_group C (group_uuid tg)) (\<lambda>_.
              and_then (get_current_construct C) (\<lambda>_.
              and_then (get_all_shots C) (\<lambda>shots.
                if shots = [] then return False
                else
                  and_then (thumbnail_loop C 0 (take 5 shots) []) (\<lambda>thumbnails.
                  and_then (get_render_queue C) (\<lambda>_.
                  and_then (enter_player C None) (\<lambda>_.
                  and_then (set_playback_mode C ''PLAY_FRW'' None ''LOOP'') (\<lambda>_.
                  return True)))))))))))"

text \<open>
  \<open>browse_project\<close> on a console that accepts what is printed: the \<open>try\<close> statement
  of lines 362 to 443. Both handlers return \<open>False\<close>; beside their prints they evaluate
  nothing that can raise. The function with its prints follows.
\<close>

definition browse_project ::
  "'s client \<Rightarrow> string \<Rightarrow> string option \<Rightarrow> 's world \<Rightarrow> (exn + bool) \<times> 's world" where
  "browse_project C pname target_group_name w =
     (case browse_steps C pname target_group_name w of
        (Inr b, w') \<Rightarrow> (Inr b, w')
      | (Inl (ApiException e), w') \<Rightarrow> (Inr False, w')
      | (Inl x, w') \<Rightarrow> (Inr False, w'))"

text \<open>
  A \<open>print\<close> on a console that cannot take the text raises (\<open>UnicodeEncodeError\<close>
  for the symbols of the messages on a console that is not UTF-8). The whole of
  \<open>browse_project\<close>: the banner of lines 358 to 360 is printed before the \<open>try\<close>,
  where nothing catches what it raises, and each handler prints before it returns
  \<open>False\<close>.
\<close>

definition print_out :: "bool \<Rightarrow> 'w \<Rightarrow> (exn + unit) \<times> 'w" where
  "print_out stdout_ok w =
     (if stdout_ok then (Inr (), w) else (Inl (OtherError ''UnicodeEncodeError''), w))"

definition browse_project_printing ::
  "bool \<Rightarrow> 's client \<Rightarrow> string \<Rightarrow> string option \<Rightarrow> 's world \<Rightarrow> (exn + bool) \<times> 's world" where
  "browse_project_printing stdout_ok C pname target_group_name =
     and_then (print_out stdout_ok) (\<lambda>_ w.
       case browse_steps C pname target_group_name w of
         (Inr b, w') \<Rightarrow> (Inr b, w')
       | (Inl (ApiException e), w') \<Rightarrow> and_then (print_out stdout_ok) (\<lambda>_. return False) w'
       | (Inl x, w') \<Rightarrow> and_then (print_out stdout_ok) (\<lambda>_. return False) w')"

subsection \<open>Vocabulary of the properties\<close>

text \<open>What the specification calls the shots a slot holds, and the slots of a construct.\<close>

definition shots_of :: "slot \<Rightarrow> shot list" where
  "shots_of sl = (case shots sl of None \<Rightarrow> [] | Some xs \<Rightarrow> xs)"

definition slots_of :: "construct \<Rightarrow> slot list" where
  "slots_of c = (case slots c of None \<Rightarrow> [] | Some xs \<Rightarrow> xs)"

definition origin :: "shot_info \<Rightarrow> nat \<times> nat" where
  "origin i = (slot_idx i, version_idx i)"

text \<open>The requests issued between two worlds, and whether a call raised.\<close>

definition new_calls :: "'s world \<Rightarrow> 's world \<Rightarrow> (call \<times> exn option) list" where
  "new_calls w w' = drop (length (calls w)) (calls w')"

definition outcome :: "exn + 'a \<Rightarrow> exn option" where
  "outcome r = (case r of Inl e \<Rightarrow> Some e | Inr _ \<Rightarrow> None)"

text \<open>The \<open>PlaymodeData\<close> object the workflow builds in its last step.\<close>

definition workflow_playmode :: playmode_data where
  "workflow_playmode = \<lparr>mode = ''PLAY_FRW'', loop = ''LOOP'', audio = ''ON'', speed = 1, play_range = False\<rparr>"

text \<open>
  The requests of steps 1 to 3 of the workflow, and those of the steps that follow the
  selection of the group.
\<close>

fun early_step :: "call \<Rightarrow> bool" where
  "early_step GetSystemProperties = True"
| "early_step ProjectExit = True"
| "early_step (ProjectEnter n) = True"
| "early_step GetProjectsCurrent = True"
| "early_step (GetGroups l) = True"
| "early_step c = False"

fun later_step :: "call \<Rightarrow> bool" where
  "later_step (GetConstructsCurrent l) = True"
| "later_step (RenderSnapshot b) = True"
| "later_step GetRenderQueue = True"
| "later_step (PlayerEnterTimeline u) = True"
| "later_step PlayerEnterTimelineCurrent = True"
| "later_step (SetPlaymode b) = True"
| "later_step c = False"

text \<open>\<open>issues K m\<close>: running \<open>m\<close> only appends requests that satisfy \<open>K\<close>.\<close>

definition issues :: "(call \<Rightarrow> bool) \<Rightarrow> ('s world \<Rightarrow> 'r \<times> 's world) \<Rightarrow> bool" where
  "issues K m \<longleftrightarrow> (\<forall>w. \<exists>cs. calls (snd (m w)) = calls w @ cs \<and> (\<forall>c \<in> set cs. K (fst c)))"

text \<open>
  The tail of \<open>browse_steps\<close> from each of its steps on, named so that the proofs can
  follow the workflow step by step (\<open>browse_steps_phases\<close> below).
\<close>

definition review_phase :: "'s client \<Rightarrow> 's world \<Rightarrow> (exn + bool) \<times> 's world" where
  "review_phase C =
     and_then (get_render_queue C) (\<lambda>_.
     and_then (enter_player C None) (\<lambda>_.
     and_then (set_playback_mode C ''PLAY_FRW'' None ''LOOP'') (\<lambda>_.
     return True)))"

definition thumbnails_phase :: "'s client \<Rightarrow> shot_info list \<Rightarrow> 's world \<Rightarrow> (exn + bool) \<times> 's world" where
  "thumbnails_phase C shs =
     (if shs = [] then return False
      else and_then (thumbnail_loop C 0 (take 5 shs) []) (\<lambda>thumbnails. review_phase C))"

definition timeline_phase :: "'s client \<Rightarrow> 's world \<Rightarrow> (exn + bool) \<times> 's world" where
  "timeline_phase C =
     and_then (get_current_construct C) (\<lambda>_.
     and_then (get_all_shots C) (thumbnails_phase C))"

definition group_phase :: "'s client \<Rightarrow> string option \<Rightarrow> group list \<Rightarrow> 's world \<Rightarrow> (exn + bool) \<times> 's world" where
  "group_phase C target_group_name groups =
     (if groups = [] then return False
      else
        (case target_group target_group_name groups of
           None \<Rightarrow> return False
         | Some tg \<Rightarrow> and_then (select_group C (group_uuid tg)) (\<lambda>_. timeline_phase C)))"





text \<open>
  Every step of the workflow has returned, one after the other from the world \<open>w\<close>, the
  lists of groups and of shots were not empty, a group was chosen, and the last step has left
  the world \<open>w'\<close>.
\<close>

definition all_steps_return ::
  "'s client \<Rightarrow> string \<Rightarrow> string option \<Rightarrow> 's world \<Rightarrow> 's world \<Rightarrow> bool" where
  "all_steps_return C pname target_group_name w w' \<longleftrightarrow>
     (\<exists>si w1 p w2 groups w3 tg g w4 c w5 shs w6 thumbnails w7 queue w8 w9.
        get_system_info C w = (Inr si, w1) \<and>
        enter_project C pname w1 = (Inr p, w2) \<and>
        get_groups C True w2 = (Inr groups, w3) \<and> groups \<noteq> [] \<and>
        target_group target_group_name groups = Some tg \<and>
        select_group C (group_uuid tg) w3 = (Inr g, w4) \<and>
        get_current_construct C w4 = (Inr c, w5) \<and>
        get_all_shots C w5 = (Inr shs, w6) \<and> shs \<noteq> [] \<and>
        thumbnail_loop C 0 (take 5 shs) [] w6 = (Inr thumbnails, w7) \<and>
        get_render_queue C w7 = (Inr queue, w8) \<and>
        enter_player C None w8 = (Inr (), w9) \<and>
        set_playback_mode C ''PLAY_FRW'' None ''LOOP'' w9 = (Inr (), w'))"

text \<open>The group identifiers passed to \<open>select_group\<close> in a list of requests.\<close>

fun selected :: "call \<times> exn option \<Rightarrow> string list" where
  "selected (SelectGroup u l, oc) = [u]"
| "selected c = []"

definition select_requests :: "(call \<times> exn option) list \<Rightarrow> string list" where
  "select_requests cs = concat (map selected cs)"

text \<open>
  The snapshot request the workflow makes for a shot and the snapshot requests in a list of
  requests. A request \<open>passes\<close> unless it is a snapshot request that raised something
  other than an \<open>ApiException\<close>. \<open>new_writes\<close>: the writes attempted between two
  worlds.
\<close>

definition snap :: "shot_info \<Rightarrow> image_snapshot" where
  "snap sh = \<lparr>snapshot_uuid = info_uuid sh, snapshot_frame = 0, snapshot_proxy = True\<rparr>"

fun snapshot_of :: "call \<times> exn option \<Rightarrow> image_snapshot list" where
  "snapshot_of (RenderSnapshot b, oc) = [b]"
| "snapshot_of c = []"

definition snapshot_requests :: "(call \<times> exn option) list \<Rightarrow> image_snapshot list" where
  "snapshot_requests cs = concat (map snapshot_of cs)"

fun passes :: "call \<times> exn option \<Rightarrow> bool" where
  "passes (RenderSnapshot b, Some (ApiException e)) = True"
| "passes (RenderSnapshot b, Some x) = False"
| "passes c = True"

definition new_writes :: "'s world \<Rightarrow> 's world \<Rightarrow> (string \<times> write_result) list" where
  "new_writes w w' = drop (length (writes w)) (writes w')"

text \<open>
  \<open>quiet m\<close>: running \<open>m\<close> writes no file and requests no snapshot.
  \<open>tidy m\<close>: every file that \<open>m\<close> writes is named by the position of one of its
  snapshot requests, below 5, and the identifier sent in that request.
\<close>

definition quiet :: "('s world \<Rightarrow> 'r \<times> 's world) \<Rightarrow> bool" where
  "quiet m \<longleftrightarrow>
     (\<forall>w. files (snd (m w)) = files w \<and>
          (\<exists>cs. calls (snd (m w)) = calls w @ cs \<and> snapshot_requests cs = []))"

definition named_by_request :: "string \<Rightarrow> (call \<times> exn option) list \<Rightarrow> bool" where
  "named_by_request q cs \<longleftrightarrow>
     (\<exists>j. j < length (snapshot_requests cs) \<and> j < 5 \<and>
          q = project_thumb_path j (snapshot_uuid (snapshot_requests cs ! j)))"

definition tidy :: "('s world \<Rightarrow> 'r \<times> 's world) \<Rightarrow> bool" where
  "tidy m \<longleftrightarrow>
     (\<forall>w. \<exists>cs. calls (snd (m w)) = calls w @ cs \<and>
          (\<forall>q. files (snd (m w)) q \<noteq> files w q \<longrightarrow> named_by_request q cs))"

text \<open>
  For \<open>enter_project\<close>: the outcomes of the exit request that the first handler
  drops, and what the second handler raises for an exception \<open>x\<close> of its \<open>try\<close>
  body. An \<open>ApiException\<close> is raised again when the handler gets past its body; what a
  body that cannot be parsed leads to is left open.
\<close>

fun ignored :: "exn option \<Rightarrow> bool" where
  "ignored None = True"
| "ignored (Some (ApiException e)) = True"
| "ignored (Some x) = False"

definition failed_with :: "'s client \<Rightarrow> exn \<Rightarrow> exn + 'a \<Rightarrow> bool" where
  "failed_with C x r \<longleftrightarrow>
     (\<exists>y. r = Inl y) \<and>
     (case x of
        ApiException e \<Rightarrow> dump_body C e = None \<longrightarrow> r = Inl (ApiException e)
      | AttributeError \<Rightarrow> r = Inl AttributeError
      | OtherError m \<Rightarrow> r = Inl (OtherError m))"

subsection \<open>A session to run the operations on\<close>

text \<open>
  A small remote session for the concrete runs below: its state counts the requests it has
  served, and the file system stores whatever is written. Two groups, one timeline of two slots holding two shots and one shot; leaving a
  project fails (none is open); the snapshot of the second shot comes back as an HTML page.
\<close>

definition shot_a1 :: shot where
  "shot_a1 = \<lparr>shot_uuid = ''a1b2c3d4-0001'', shot_name = ''opening'',
              shot_file = Some ''/media/opening.mov'', shot_length = Some 120,
              shot_timecode = Some ''01:00:00:00''\<rparr>"

definition shot_a2 :: shot where
  "shot_a2 = \<lparr>shot_uuid = ''e5f6a7b8-0002'', shot_name = ''opening v2'',
              shot_file = None, shot_length = Some 96, shot_timecode = None\<rparr>"

definition shot_b1 :: shot where
  "shot_b1 = \<lparr>shot_uuid = ''c9d0e1f2-0003'', shot_name = ''titles'',
              shot_file = Some ''/media/titles.mov'', shot_length = None,
              shot_timecode = Some ''01:00:05:00''\<rparr>"

definition reel :: construct where
  "reel = \<lparr>construct_name = Some ''Reel 1'',
           construct_resolution = Some \<lparr>res_w = Some ''1920'', res_h = Some ''1080''\<rparr>,
           construct_fps = Some 24,
           slots = Some [\<lparr>shots = Some [shot_a1, shot_a2]\<rparr>, \<lparr>shots = Some [shot_b1]\<rparr>]\<rparr>"

definition group_A :: group where
  "group_A = \<lparr>group_uuid = ''g-0001'', group_name = ''A'', group_active = True,
              group_constructs = [''Reel 1'']\<rparr>"

definition group_B :: group where
  "group_B = \<lparr>group_uuid = ''g-0002'', group_name = ''B'', group_active = False,
              group_constructs = []\<rparr>"

definition no_project_open :: api_exception where
  "no_project_open = \<lparr>status = 400, reason = ''Bad Request'',
                      body = Some ''{}''\<rparr>"

definition server_error :: api_exception where
  "server_error = \<lparr>status = 500, reason = ''Internal Server Error'', body = None\<rparr>"

definition jpeg_response :: http_response where
  "jpeg_response = \<lparr>headers = [''Content-Type'' \<mapsto> ''image/jpeg''], data = Some ''JFIF''\<rparr>"

definition html_response :: http_response where
  "html_response = \<lparr>headers = [''Content-Type'' \<mapsto> ''text/html''],
                    data = Some ''<html>busy</html>''\<rparr>"

definition studio :: "nat client" where
  "studio =
     \<lparr>system_api_get_system_properties =
        (\<lambda>s. (Inr \<lparr>system_name = ''suite'', version = ''9.7'', build = ''1203''\<rparr>, Suc s)),
      application_api_do_application_project_exit =
        (\<lambda>s. (Inl (ApiException no_project_open), Suc s)),
      application_api_do_application_project_enter = (\<lambda>n s. (Inr (), Suc s)),
      projects_api_get_projects_current =
        (\<lambda>s. (Inr \<lparr>project_name = ''Project'', project_modified = ''2024-05-01''\<rparr>, Suc s)),
      projects_api_get_groups = (\<lambda>l s. (Inr [group_A, group_B], Suc s)),
      projects_api_select_group =
        (\<lambda>u l s. (Inr (if u = group_uuid group_A then group_A else group_B), Suc s)),
      projects_api_get_constructs_current = (\<lambda>l s. (Inr reel, Suc s)),
      application_api_do_application_render_snapshot =
        (\<lambda>b s. (Inr (if snapshot_uuid b = shot_uuid shot_a2 then html_response
                       else jpeg_response), Suc s)),
      application_api_get_application_render_queue = (\<lambda>s. (Inr [], Suc s)),
      application_api_do_application_player_enter_timeline = (\<lambda>u s. (Inr (), Suc s)),
      application_api_do_application_player_enter_timeline_current = (\<lambda>s. (Inr (), Suc s)),
      application_api_set_application_player_playmode = (\<lambda>b s. (Inr (), Suc s)),
      json_loads = (\<lambda>b. if take 1 b = ''{'' then Inr () else Inl (OtherError ''JSONDecodeError''))\<rparr>"

definition start :: "nat world" where
  "start = \<lparr>remote = 0, calls = [], files = Map.empty, now = ''20240501_093000'',
            current_project = None, current_group = None, current_construct = None,
            disk = (\<lambda>path bytes. Stored), writes = []\<rparr>"

text \<open>
  The session with a group that cannot be selected, and the worlds the first three steps
  of the workflow leave in the session above.
\<close>

definition studio_locked :: "nat client" where
  "studio_locked =
     studio\<lparr>projects_api_select_group := (\<lambda>u l s. (Inl (ApiException server_error), Suc s))\<rparr>"

definition after_info :: "nat world" where
  "after_info = snd (get_system_info studio start)"

definition after_enter :: "nat world" where
  "after_enter = snd (enter_project studio ''Project'' after_info)"

definition after_groups :: "nat world" where
  "after_groups = snd (get_groups studio True after_enter)"

text \<open>
  The session whose connection drops on the snapshot of the second shot; the shots of the
  timeline, and the worlds steps 5 to 7 of the workflow leave.
\<close>

definition studio_dropping :: "nat client" where
  "studio_dropping =
     studio\<lparr>application_api_do_application_render_snapshot :=
       (\<lambda>b s. (if snapshot_uuid b = shot_uuid shot_a2 then Inl (OtherError ''connection reset'')
                else Inr jpeg_response, Suc s))\<rparr>"

definition studio_shots :: "shot_info list" where
  "studio_shots = [make_shot_info 0 0 shot_a1, make_shot_info 0 1 shot_a2, make_shot_info 1 0 shot_b1]"

definition after_select :: "nat world" where
  "after_select = snd (select_group studio (group_uuid group_B) after_groups)"

definition after_construct :: "nat world" where
  "after_construct = snd (get_current_construct studio after_select)"

definition after_shots :: "nat world" where
  "after_shots = snd (get_all_shots studio after_construct)"

text \<open>
  Two more sessions: one whose current project cannot be fetched, one whose list of groups
  fails with an error that has no body.
\<close>

definition studio_stale :: "nat client" where
  "studio_stale =
     studio\<lparr>projects_api_get_projects_current := (\<lambda>s. (Inl (ApiException server_error), Suc s))\<rparr>"

definition studio_down :: "nat client" where
  "studio_down =
     studio\<lparr>projects_api_get_groups := (\<lambda>l s. (Inl (ApiException server_error), Suc s))\<rparr>"

section \<open>Properties\<close>

subsection \<open>The flattening of slots and shots\<close>

lemma collect_versions_eq:
  "collect_versions si vi xs acc = acc @ map (\<lambda>(k, sh). make_shot_info si k sh) (enumerate vi xs)"
  by (induction xs arbitrary: vi acc) simp_all

lemma collect_slots_eq:
  "collect_slots si sls acc =
     acc @ concat (map (\<lambda>(i, sl). map (\<lambda>(k, sh). make_shot_info i k sh) (enumerate 0 (shots_of sl)))
                       (enumerate si sls))"
  by (induction sls arbitrary: si acc)
     (simp_all add: collect_versions_eq shots_of_def safe_get_attr_def)

lemma origins_eq:
  "map origin (concat (map (\<lambda>(i, sl). map (\<lambda>(k, sh). make_shot_info i k sh) (enumerate 0 (shots_of sl)))
                       (enumerate n sls))) =
   concat (map (\<lambda>(i, sl). map (Pair i) [0..<length (shots_of sl)]) (enumerate n sls))"
proof (induction sls arbitrary: n)
  case Nil
  show ?case by simp
next
  case (Cons sl sls)
  have "map (\<lambda>x. (n, fst x)) (enumerate 0 (shots_of sl)) =
        map (Pair n) (map fst (enumerate 0 (shots_of sl)))"
    by (simp only: map_map comp_def)
  then have "map origin (map (\<lambda>(k, sh). make_shot_info n k sh) (enumerate 0 (shots_of sl)))
        = map (Pair n) [0..<length (shots_of sl)]"
    by (simp add: origin_def make_shot_info_def case_prod_unfold comp_def)
  then show ?case using Cons.IH [of "Suc n"] by simp
qed

lemma origins_fst_ge:
  "p \<in> set (concat (map (\<lambda>(i, sl). map (Pair i) [0..<length (shots_of sl)]) (enumerate n sls)))
   \<Longrightarrow> n \<le> fst p"
  by (induction sls arbitrary: n) (auto, fastforce)

lemma origins_distinct:
  "distinct (concat (map (\<lambda>(i, sl). map (Pair i) [0..<length (shots_of sl)]) (enumerate n sls)))"
proof (induction sls arbitrary: n)
  case Nil
  show ?case by simp
next
  case (Cons sl sls)
  have "distinct (map (Pair n) [0..<length (shots_of sl)])"
    by (simp add: distinct_map inj_on_def)
  moreover have "set (map (Pair n) [0..<length (shots_of sl)]) \<inter>
      set (concat (map (\<lambda>(i, sl). map (Pair i) [0..<length (shots_of sl)]) (enumerate (Suc n) sls))) = {}"
    using origins_fst_ge [of _ "Suc n" sls] by fastforce
  ultimately show ?case using Cons.IH [of "Suc n"] by simp
qed

lemma flat_length:
  "length (concat (map (\<lambda>(i, sl). map (\<lambda>(k, sh). make_shot_info i k sh) (enumerate 0 (shots_of sl)))
                       (enumerate n sls))) = sum_list (map (\<lambda>sl. length (shots_of sl)) sls)"
  by (induction sls arbitrary: n) simp_all

lemma flat_member:
  assumes "e \<in> set (concat (map (\<lambda>(i, sl). map (\<lambda>(k, sh). make_shot_info i k sh) (enumerate 0 (shots_of sl)))
                       (enumerate 0 sls)))"
  shows "slot_idx e < length sls \<and> version_idx e < length (shots_of (sls ! slot_idx e)) \<and>
         e = make_shot_info (slot_idx e) (version_idx e) (shots_of (sls ! slot_idx e) ! version_idx e)"
proof -
  from assms obtain i sl k sh where
    isl: "(i, sl) \<in> set (enumerate 0 sls)" and ksh: "(k, sh) \<in> set (enumerate 0 (shots_of sl))"
    and e: "e = make_shot_info i k sh"
    by auto
  from isl have i: "i < length sls" "sls ! i = sl" by (auto simp: in_set_enumerate_eq)
  from ksh have k: "k < length (shots_of sl)" "shots_of sl ! k = sh" by (auto simp: in_set_enumerate_eq)
  have "slot_idx e = i" "version_idx e = k" using e by (simp_all add: make_shot_info_def)
  with i k e show ?thesis by simp
qed

lemma get_all_shots_returns:
  assumes "projects_api_get_constructs_current C ''ALL'' (remote w) = (Inr c, s')"
  shows "fst (get_all_shots C w) = Inr (collect_slots 0 (slots_of c) [])"
  using assms by (simp add: get_all_shots_def invoke_def slots_of_def safe_get_attr_def)

text \<open>
  C1. When the client returns a construct, \<open>get_all_shots\<close> returns a list with one entry
  for every shot of every slot: its length is the sum of the slots' shot counts, no two
  entries carry the same (slot index, version index) pair, and every entry is the summary
  of the shot that stands at that position of the construct.
\<close>

theorem get_all_shots_flattens:
  assumes "projects_api_get_constructs_current C ''ALL'' (remote w) = (Inr c, s')"
  shows "\<exists>out. fst (get_all_shots C w) = Inr out \<and>
           length out = sum_list (map (\<lambda>sl. length (shots_of sl)) (slots_of c)) \<and>
           distinct (map origin out) \<and>
           (\<forall>e \<in> set out.
              slot_idx e < length (slots_of c) \<and>
              version_idx e < length (shots_of (slots_of c ! slot_idx e)) \<and>
              e = make_shot_info (slot_idx e) (version_idx e)
                    (shots_of (slots_of c ! slot_idx e) ! version_idx e))"
proof -
  let ?out = "collect_slots 0 (slots_of c) []"
  have out: "?out = concat (map (\<lambda>(i, sl). map (\<lambda>(k, sh). make_shot_info i k sh)
                 (enumerate 0 (shots_of sl))) (enumerate 0 (slots_of c)))"
    by (simp add: collect_slots_eq)
  have "length ?out = sum_list (map (\<lambda>sl. length (shots_of sl)) (slots_of c))"
    unfolding out by (rule flat_length)
  moreover have "distinct (map origin ?out)"
    unfolding out origins_eq by (rule origins_distinct)
  moreover have "\<forall>e \<in> set ?out.
              slot_idx e < length (slots_of c) \<and>
              version_idx e < length (shots_of (slots_of c ! slot_idx e)) \<and>
              e = make_shot_info (slot_idx e) (version_idx e)
                    (shots_of (slots_of c ! slot_idx e) ! version_idx e)"
    unfolding out using flat_member by blast
  ultimately show ?thesis
    using get_all_shots_returns [OF assms] by blast
qed

theorem get_all_shots_flattens_witness:
  "projects_api_get_constructs_current studio ''ALL'' (remote start) = (Inr reel, Suc 0) \<and>
   (\<exists>out. fst (get_all_shots studio start) = Inr out \<and> length out = 3 \<and>
      distinct (map origin out))"
proof -
  have h: "projects_api_get_constructs_current studio ''ALL'' (remote start) = (Inr reel, Suc 0)"
    by (simp add: studio_def start_def)
  have "sum_list (map (\<lambda>sl. length (shots_of sl)) (slots_of reel)) = 3"
    by (simp add: reel_def slots_of_def shots_of_def)
  with get_all_shots_flattens [OF h] h show ?thesis by auto
qed

subsection \<open>Requests issued by each operation\<close>

lemma browse_steps_phases:
  "browse_steps C pn tgn =
     and_then (get_system_info C) (\<lambda>_.
     and_then (enter_project C pn) (\<lambda>_.
     and_then (get_groups C True) (group_phase C tgn)))"
  unfolding browse_steps_def group_phase_def timeline_phase_def thumbnails_phase_def review_phase_def
  by (rule refl)

lemma and_then_cases [consumes 1, case_names Raise Next]:
  assumes "and_then m f w = (r, w')"
  obtains e where "m w = (Inl e, w')" "r = Inl e"
        | x w1 where "m w = (Inr x, w1)" "f x w1 = (r, w')"
  using assms by (auto simp: and_then_def split: prod.splits sum.splits)

lemma issuesI:
  assumes "\<And>w r w'. m w = (r, w') \<Longrightarrow> \<exists>cs. calls w' = calls w @ cs \<and> (\<forall>c \<in> set cs. K (fst c))"
  shows "issues K m"
  unfolding issues_def
proof
  fix w
  show "\<exists>cs. calls (snd (m w)) = calls w @ cs \<and> (\<forall>c \<in> set cs. K (fst c))"
    using assms [of w "fst (m w)" "snd (m w)"] by simp
qed

lemma issuesD:
  assumes "issues K m" "m w = (r, w')"
  obtains cs where "calls w' = calls w @ cs" "\<forall>c \<in> set cs. K (fst c)"
  using assms unfolding issues_def by (metis snd_conv)

lemma issues_weaken: "issues K m \<Longrightarrow> (\<And>c. K c \<Longrightarrow> K' c) \<Longrightarrow> issues K' m"
  unfolding issues_def by blast

lemma issues_return: "issues K (return x)"
  by (simp add: issues_def return_def)

lemma issues_invoke: "K c \<Longrightarrow> issues K (invoke c f)"
  by (simp add: issues_def invoke_def split: prod.splits)

lemma issues_and_then:
  assumes "issues K m" "\<And>x. issues K (f x)"
  shows "issues K (and_then m f)"
proof (rule issuesI)
  fix w r w'
  assume run: "and_then m f w = (r, w')"
  then show "\<exists>cs. calls w' = calls w @ cs \<and> (\<forall>c \<in> set cs. K (fst c))"
  proof (cases rule: and_then_cases)
    case (Raise e)
    with assms(1) show ?thesis by (auto elim: issuesD)
  next
    case (Next x w1)
    from assms(1) Next(1) obtain cs1 where 1: "calls w1 = calls w @ cs1" "\<forall>c \<in> set cs1. K (fst c)"
      by (rule issuesD)
    from assms(2) Next(2) obtain cs2 where 2: "calls w' = calls w1 @ cs2" "\<forall>c \<in> set cs2. K (fst c)"
      by (rule issuesD)
    from 1 2 have "calls w' = calls w @ (cs1 @ cs2)" "\<forall>c \<in> set (cs1 @ cs2). K (fst c)" by auto
    then show ?thesis by blast
  qed
qed

lemma invoke_calls:
  "invoke c f w = (r, w') \<Longrightarrow>
     calls w' = calls w @ [(c, outcome r)] \<and> files w' = files w \<and> now w' = now w \<and>
     f (remote w) = (r, remote w') \<and> writes w' = writes w \<and> disk w' = disk w"
  by (auto simp: invoke_def outcome_def split: prod.splits)

lemma get_system_info_issues: "issues (\<lambda>c. c = GetSystemProperties) (get_system_info C)"
  by (rule issuesI)
     (auto simp: get_system_info_def split: prod.splits sum.splits exn.splits option.splits
           dest!: invoke_calls)

lemma enter_project_issues:
  "issues (\<lambda>c. c = ProjectExit \<or> c = ProjectEnter pn \<or> c = GetProjectsCurrent) (enter_project C pn)"
  by (rule issuesI)
     (auto simp: enter_project_def and_then_def split: prod.splits sum.splits exn.splits option.splits
           dest!: invoke_calls)

lemma get_groups_issues: "issues (\<lambda>c. c = GetGroups (if d then ''ALL'' else [])) (get_groups C d)"
  by (rule issuesI)
     (auto simp: get_groups_def Let_def split: prod.splits sum.splits exn.splits option.splits
           dest!: invoke_calls)

lemma select_group_calls:
  "select_group C u w = (r, w') \<Longrightarrow>
     calls w' = calls w @ [(SelectGroup u ''ALL'', outcome r)] \<and> files w' = files w"
  by (auto simp: select_group_def outcome_def split: prod.splits sum.splits dest!: invoke_calls)

lemma get_current_construct_issues: "issues (\<lambda>c. c = GetConstructsCurrent ''ALL'') (get_current_construct C)"
  by (rule issuesI)
     (auto simp: get_current_construct_def split: prod.splits sum.splits dest!: invoke_calls)

lemma get_all_shots_issues: "issues (\<lambda>c. c = GetConstructsCurrent ''ALL'') (get_all_shots C)"
  by (rule issuesI)
     (auto simp: get_all_shots_def split: prod.splits sum.splits exn.splits dest!: invoke_calls)

lemma get_render_queue_issues: "issues (\<lambda>c. c = GetRenderQueue) (get_render_queue C)"
  by (rule issuesI)
     (auto simp: get_render_queue_def split: prod.splits sum.splits exn.splits if_splits
           dest!: invoke_calls)

lemma enter_player_calls:
  "enter_player C None w = (r, w') \<Longrightarrow>
     calls w' = calls w @ [(PlayerEnterTimelineCurrent, outcome r)] \<and> files w' = files w"
  by (auto simp: enter_player_def dest!: invoke_calls)

lemma set_playback_mode_calls:
  "set_playback_mode C m fr l w = (r, w') \<Longrightarrow>
     calls w' = calls w @
       [(SetPlaymode \<lparr>mode = m, loop = l, audio = ''ON'', speed = 1, play_range = False\<rparr>, outcome r)]
     \<and> files w' = files w"
  by (auto simp: set_playback_mode_def Let_def dest!: invoke_calls)

lemma write_file_run:
  assumes "write_file path bytes w = (r, w')"
  shows "calls w' = calls w \<and> remote w' = remote w \<and> now w' = now w \<and>
         (\<forall>q. q \<noteq> path \<longrightarrow> files w' q = files w q) \<and>
         (\<exists>res. writes w' = writes w @ [(path, res)] \<and> (res = Stored \<longleftrightarrow> (\<exists>u. r = Inr u)))"
  using assms by (auto simp: write_file_def split: write_result.splits)

lemma generate_thumbnail_issues:
  "issues (\<lambda>c. c = RenderSnapshot \<lparr>snapshot_uuid = u, snapshot_frame = f, snapshot_proxy = True\<rparr>)
     (generate_thumbnail C u f p)"
  by (rule issuesI)
     (auto simp: generate_thumbnail_def Let_def
           split: prod.splits sum.splits exn.splits option.splits if_splits
           dest!: invoke_calls write_file_run)

lemma thumbnail_loop_issues_aux:
  "thumbnail_loop C i shs acc w = (r, w') \<Longrightarrow>
     \<exists>cs. calls w' = calls w @ cs \<and> (\<forall>c \<in> set cs. \<exists>b. fst c = RenderSnapshot b)"
proof (induction shs arbitrary: i acc w)
  case Nil
  then show ?case by simp
next
  case (Cons sh shs)
  obtain r1 w1 where g: "generate_thumbnail C (info_uuid sh) 0 (Some (project_thumb_path i (info_uuid sh))) w = (r1, w1)"
    by (cases "generate_thumbnail C (info_uuid sh) 0 (Some (project_thumb_path i (info_uuid sh))) w")
  from generate_thumbnail_issues g obtain cs1 where
    c1: "calls w1 = calls w @ cs1" "\<forall>c \<in> set cs1. \<exists>b. fst c = RenderSnapshot b"
    by (rule issuesD) blast
  show ?case
  proof (cases r1)
    case (Inl e)
    with g Cons.prems c1 show ?thesis by auto
  next
    case (Inr res)
    with g Cons.prems have "thumbnail_loop C (Suc i) shs
          (case res of None \<Rightarrow> acc | Some p \<Rightarrow> if p = [] then acc else acc @ [p]) w1 = (r, w')" by simp
    from Cons.IH [OF this] obtain cs2 where
      "calls w' = calls w1 @ cs2" "\<forall>c \<in> set cs2. \<exists>b. fst c = RenderSnapshot b" by blast
    with c1 have "calls w' = calls w @ (cs1 @ cs2)" "\<forall>c \<in> set (cs1 @ cs2). \<exists>b. fst c = RenderSnapshot b"
      by auto
    then show ?thesis by blast
  qed
qed

lemma thumbnail_loop_issues: "issues (\<lambda>c. \<exists>b. c = RenderSnapshot b) (thumbnail_loop C i shs acc)"
  by (rule issuesI) (drule thumbnail_loop_issues_aux, simp)

lemma select_group_issues: "issues (\<lambda>c. c = SelectGroup u ''ALL'') (select_group C u)"
  by (rule issuesI) (auto dest!: select_group_calls)

lemma browse_project_steps:
  assumes "browse_project C pn tgn w = (r, w')"
  obtains r0 where "browse_steps C pn tgn w = (r0, w')"
    and "r = (case r0 of Inr b \<Rightarrow> Inr b | Inl e \<Rightarrow> Inr False)"
  using assms by (auto simp: browse_project_def split: prod.splits sum.splits exn.splits)

lemma new_calls_append: "calls w' = calls w @ cs \<Longrightarrow> new_calls w w' = cs"
  by (simp add: new_calls_def)


subsection \<open>The selection of the group\<close>

lemma issues_later_construct: "issues later_step (get_current_construct C)"
  by (rule issues_weaken [OF get_current_construct_issues]) simp

lemma issues_later_shots: "issues later_step (get_all_shots C)"
  by (rule issues_weaken [OF get_all_shots_issues]) simp

lemma issues_later_loop: "issues later_step (thumbnail_loop C i shs acc)"
  by (rule issues_weaken [OF thumbnail_loop_issues]) auto

lemma issues_later_queue: "issues later_step (get_render_queue C)"
  by (rule issues_weaken [OF get_render_queue_issues]) simp

lemma issues_later_player: "issues later_step (enter_player C None)"
  by (rule issuesI) (auto dest!: enter_player_calls)

lemma issues_later_playback: "issues later_step (set_playback_mode C m fr l)"
  by (rule issuesI) (auto dest!: set_playback_mode_calls)

lemma timeline_phase_issues: "issues later_step (timeline_phase C)"
  unfolding timeline_phase_def thumbnails_phase_def review_phase_def
  by (auto intro!: issues_and_then issues_return issues_later_construct issues_later_shots
        issues_later_loop issues_later_queue issues_later_player issues_later_playback)

lemma opening_issues:
  "issues early_step
     (and_then (get_system_info C) (\<lambda>_. and_then (enter_project C pn) (\<lambda>_. get_groups C True)))"
  by (intro issues_and_then issues_weaken [OF get_system_info_issues]
        issues_weaken [OF enter_project_issues] issues_weaken [OF get_groups_issues]) auto

lemma and_then_assoc:
  "and_then (and_then m f) g = and_then m (\<lambda>x. and_then (f x) g)"
  by (rule ext) (simp add: and_then_def split: prod.splits sum.splits)

lemma browse_steps_opening:
  "browse_steps C pn tgn =
     and_then (and_then (get_system_info C) (\<lambda>_. and_then (enter_project C pn) (\<lambda>_. get_groups C True)))
       (group_phase C tgn)"
  by (simp add: browse_steps_phases and_then_assoc)

lemma group_phase_run:
  assumes "group_phase C tgn groups w = (r, w')"
  shows "(r = Inr False \<and> w' = w \<and> (groups = [] \<or> target_group tgn groups = None)) \<or>
         (\<exists>tg oc cs. groups \<noteq> [] \<and> target_group tgn groups = Some tg \<and>
            calls w' = calls w @ (SelectGroup (group_uuid tg) ''ALL'', oc) # cs \<and>
            (\<forall>c \<in> set cs. later_step (fst c)) \<and>
            (\<forall>e. oc = Some e \<longrightarrow> cs = [] \<and> r = Inl e))"
proof (cases "groups = [] \<or> target_group tgn groups = None")
  case True
  with assms show ?thesis by (auto simp: group_phase_def return_def split: if_splits)
next
  case False
  then obtain tg where tg: "groups \<noteq> []" "target_group tgn groups = Some tg" by auto
  with assms have "and_then (select_group C (group_uuid tg)) (\<lambda>_. timeline_phase C) w = (r, w')"
    by (simp add: group_phase_def)
  then show ?thesis
  proof (cases rule: and_then_cases)
    case (Raise e)
    from select_group_calls [OF Raise(1)] Raise(2) tg show ?thesis
      by (auto simp: outcome_def)
  next
    case (Next g w1)
    from select_group_calls [OF Next(1)]
    have 1: "calls w1 = calls w @ [(SelectGroup (group_uuid tg) ''ALL'', None)]"
      by (simp add: outcome_def)
    from timeline_phase_issues Next(2) obtain cs where
      "calls w' = calls w1 @ cs" "\<forall>c \<in> set cs. later_step (fst c)"
      by (rule issuesD)
    with 1 tg show ?thesis by auto
  qed
qed

lemma select_requests_early: "\<forall>c \<in> set cs. early_step (fst c) \<Longrightarrow> select_requests cs = []"
  by (induction cs) (auto simp: select_requests_def elim: early_step.elims)

lemma select_requests_later: "\<forall>c \<in> set cs. later_step (fst c) \<Longrightarrow> select_requests cs = []"
  by (induction cs) (auto simp: select_requests_def elim: later_step.elims)

lemma select_requests_append [simp]:
  "select_requests (xs @ ys) = select_requests xs @ select_requests ys"
  by (simp add: select_requests_def)

lemma select_requests_Cons [simp]:
  "select_requests ((SelectGroup u l, oc) # cs) = u # select_requests cs"
  by (simp add: select_requests_def)

lemma early_not_later: "early_step c \<Longrightarrow> \<not> later_step c"
  by (cases c) simp_all

text \<open>
  C4. When the request that selects the group raises an \<open>ApiException\<close> during a run
  of \<open>browse_project\<close>, the run returns \<open>False\<close>, that request is the last one it
  issues, and no request of a later step (current construct, shots, snapshots, render queue,
  player, playback mode) is issued.
\<close>

theorem select_group_failure_aborts:
  assumes "(SelectGroup u l, Some (ApiException e))
             \<in> set (new_calls w (snd (browse_project C pn tgn w)))"
  shows "fst (browse_project C pn tgn w) = Inr False \<and>
         last (new_calls w (snd (browse_project C pn tgn w))) = (SelectGroup u l, Some (ApiException e)) \<and>
         (\<forall>c \<in> set (new_calls w (snd (browse_project C pn tgn w))). \<not> later_step (fst c))"
proof -
  obtain r w' where run: "browse_project C pn tgn w = (r, w')"
    by (cases "browse_project C pn tgn w")
  then obtain r0 where
    r0: "browse_steps C pn tgn w = (r0, w')" "r = (case r0 of Inr b \<Rightarrow> Inr b | Inl e \<Rightarrow> Inr False)"
    by (rule browse_project_steps)
  from assms run have sel: "(SelectGroup u l, Some (ApiException e)) \<in> set (new_calls w w')"
    by simp
  let ?opening = "and_then (get_system_info C) (\<lambda>_. and_then (enter_project C pn) (\<lambda>_. get_groups C True))"
  from r0(1) have "and_then ?opening (group_phase C tgn) w = (r0, w')"
    by (simp add: browse_steps_opening)
  then have "r0 = Inl (ApiException e) \<and>
             (\<exists>pre. new_calls w w' = pre @ [(SelectGroup u l, Some (ApiException e))] \<and>
                    (\<forall>c \<in> set pre. early_step (fst c)))"
  proof (cases rule: and_then_cases)
    case (Raise x)
    from opening_issues Raise(1) obtain cs where
      "calls w' = calls w @ cs" "\<forall>c \<in> set cs. early_step (fst c)"
      by (rule issuesD)
    with sel show ?thesis by (fastforce dest!: new_calls_append)
  next
    case (Next groups w1)
    from opening_issues Next(1) obtain cs1 where
      1: "calls w1 = calls w @ cs1" "\<forall>c \<in> set cs1. early_step (fst c)"
      by (rule issuesD)
    from group_phase_run [OF Next(2)] consider
        (stay) "w' = w1"
      | (select) tg :: group and oc cs where
          "calls w' = calls w1 @ (SelectGroup (group_uuid tg) ''ALL'', oc) # cs"
          "\<forall>c \<in> set cs. later_step (fst c)" "\<forall>e. oc = Some e \<longrightarrow> cs = [] \<and> r0 = Inl e"
      by blast
    then show ?thesis
    proof cases
      case stay
      with 1 sel show ?thesis by (fastforce dest!: new_calls_append)
    next
      case (select tg oc cs)
      note 2 = select
      from 1 2(1) have new: "new_calls w w' = cs1 @ (SelectGroup (group_uuid tg) ''ALL'', oc) # cs"
        by (simp add: new_calls_def)
      from sel new 1(2) 2(2) have "(SelectGroup u l, Some (ApiException e)) = (SelectGroup (group_uuid tg) ''ALL'', oc)"
        by fastforce
      with 2(3) new 1(2) show ?thesis by auto
    qed
  qed
  then obtain pre where
    "r0 = Inl (ApiException e)"
    "new_calls w w' = pre @ [(SelectGroup u l, Some (ApiException e))]"
    "\<forall>c \<in> set pre. early_step (fst c)" by blast
  with r0(2) run show ?thesis by (auto dest: early_not_later)
qed

lemmas operation_defs =
  browse_project_def browse_steps_def and_then_def return_def get_system_info_def
  enter_project_def get_groups_def select_group_def get_current_construct_def
  get_all_shots_def generate_thumbnail_def write_file_def get_render_queue_def enter_player_def
  set_playback_mode_def invoke_def target_group_def dump_body_def safe_get_attr_def
  make_shot_info_def project_thumb_path_def Let_def new_calls_def

lemmas session_defs =
  studio_def start_def group_A_def group_B_def reel_def shot_a1_def shot_a2_def shot_b1_def
  no_project_open_def server_error_def jpeg_response_def html_response_def

lemma studio_info:
  "get_system_info studio start =
     (Inr \<lparr>system_name = ''suite'', version = ''9.7'', build = ''1203''\<rparr>, after_info)"
  by (simp add: after_info_def operation_defs session_defs)

lemma studio_enter:
  "enter_project studio ''Project'' after_info =
     (Inr \<lparr>project_name = ''Project'', project_modified = ''2024-05-01''\<rparr>, after_enter)"
  by (simp add: after_enter_def after_info_def operation_defs session_defs)

lemma studio_groups:
  "get_groups studio True after_enter = (Inr [group_A, group_B], after_groups)"
  by (simp add: after_groups_def after_enter_def after_info_def operation_defs session_defs)

lemma locked_run:
  "new_calls start (snd (browse_project studio_locked ''Project'' None start)) =
     [(GetSystemProperties, None), (ProjectExit, Some (ApiException no_project_open)),
      (ProjectEnter ''Project'', None), (GetProjectsCurrent, None), (GetGroups ''ALL'', None),
      (SelectGroup ''g-0002'' ''ALL'', Some (ApiException server_error))]"
  by (simp add: studio_locked_def operation_defs session_defs)

theorem select_group_failure_aborts_witness:
  "(SelectGroup ''g-0002'' ''ALL'', Some (ApiException server_error))
      \<in> set (new_calls start (snd (browse_project studio_locked ''Project'' None start))) \<and>
   fst (browse_project studio_locked ''Project'' None start) = Inr False \<and>
   last (new_calls start (snd (browse_project studio_locked ''Project'' None start)))
     = (SelectGroup ''g-0002'' ''ALL'', Some (ApiException server_error))"
proof -
  have h: "(SelectGroup ''g-0002'' ''ALL'', Some (ApiException server_error))
      \<in> set (new_calls start (snd (browse_project studio_locked ''Project'' None start)))"
    by (simp add: locked_run)
  from select_group_failure_aborts [OF h] h show ?thesis by blast
qed

text \<open>
  C3 (amended). When steps 1 to 3 have returned a non-empty list of groups, the workflow
  passes exactly one group to \<open>select_group\<close>, or none: with a non-empty target name the
  first group of that name, and when there is none it returns \<open>False\<close> at once without
  a further request; with no target name, or with the empty string, the last group.
\<close>

theorem group_selection:
  assumes "get_system_info C w = (Inr si, w1)"
    and "enter_project C pn w1 = (Inr p, w2)"
    and "get_groups C True w2 = (Inr groups, w3)"
    and "groups \<noteq> []"
  shows "(tgn = None \<or> tgn = Some [] \<longrightarrow>
            select_requests (new_calls w (snd (browse_project C pn tgn w)))
              = [group_uuid (last groups)]) \<and>
         (\<forall>n g. tgn = Some n \<and> n \<noteq> [] \<and> find (\<lambda>g. group_name g = n) groups = Some g \<longrightarrow>
            select_requests (new_calls w (snd (browse_project C pn tgn w))) = [group_uuid g]) \<and>
         (\<forall>n. tgn = Some n \<and> n \<noteq> [] \<and> find (\<lambda>g. group_name g = n) groups = None \<longrightarrow>
            select_requests (new_calls w (snd (browse_project C pn tgn w))) = [] \<and>
            browse_project C pn tgn w = (Inr False, w3))"
proof -
  obtain r w' where run: "browse_project C pn tgn w = (r, w')"
    by (cases "browse_project C pn tgn w")
  then obtain r0 where
    r0: "browse_steps C pn tgn w = (r0, w')" "r = (case r0 of Inr b \<Rightarrow> Inr b | Inl e \<Rightarrow> Inr False)"
    by (rule browse_project_steps)
  let ?opening = "and_then (get_system_info C) (\<lambda>_. and_then (enter_project C pn) (\<lambda>_. get_groups C True))"
  have "?opening w = (Inr groups, w3)"
    using assms by (simp add: and_then_def)
  with opening_issues obtain cs1 where
    1: "calls w3 = calls w @ cs1" "\<forall>c \<in> set cs1. early_step (fst c)"
    by (rule issuesD)
  have phase: "group_phase C tgn groups w3 = (r0, w')"
    using assms r0(1) by (simp add: browse_steps_phases and_then_def)
  from group_phase_run [OF phase] consider
      (stay) "r0 = Inr False" "w' = w3" "target_group tgn groups = None"
    | (select) tg :: group and oc cs where
        "target_group tgn groups = Some tg"
        "calls w' = calls w3 @ (SelectGroup (group_uuid tg) ''ALL'', oc) # cs"
        "\<forall>c \<in> set cs. later_step (fst c)"
    using assms(4) by (elim disjE conjE exE) auto
  then show ?thesis
  proof cases
    case stay
    from stay(2) 1 have "select_requests (new_calls w w') = []"
      by (simp add: new_calls_def select_requests_early)
    with stay r0(2) run show ?thesis
      by (auto simp: target_group_def split: option.splits if_splits)
  next
    case (select tg oc cs)
    from select(2) 1 have "new_calls w w' = cs1 @ (SelectGroup (group_uuid tg) ''ALL'', oc) # cs"
      by (simp add: new_calls_def)
    with 1(2) select(3) have "select_requests (new_calls w w') = [group_uuid tg]"
      by (simp add: select_requests_early select_requests_later)
    with select(1) run show ?thesis
      by (auto simp: target_group_def split: option.splits if_splits)
  qed
qed

theorem group_selection_witness:
  "select_requests (new_calls start (snd (browse_project studio ''Project'' (Some ''B'') start)))
     = [group_uuid group_B] \<and>
   select_requests (new_calls start (snd (browse_project studio ''Project'' None start)))
     = [group_uuid (last [group_A, group_B])]"
proof -
  have ne: "[group_A, group_B] \<noteq> []" by simp
  have f: "find (\<lambda>g. group_name g = ''B'') [group_A, group_B] = Some group_B"
    by (simp add: group_A_def group_B_def)
  from group_selection [OF studio_info studio_enter studio_groups ne, of "Some ''B''"] f
  have "select_requests (new_calls start (snd (browse_project studio ''Project'' (Some ''B'') start)))
     = [group_uuid group_B]" by simp
  moreover from group_selection [OF studio_info studio_enter studio_groups ne, of None]
  have "select_requests (new_calls start (snd (browse_project studio ''Project'' None start)))
     = [group_uuid (last [group_A, group_B])]" by simp
  ultimately show ?thesis by simp
qed

text \<open>
  C3 as stated fails for the target name \<open>""\<close>: the name is given and matches no
  group, yet the workflow selects the last group and runs to the end.
\<close>

theorem group_selection_counterexample:
  "find (\<lambda>g. group_name g = []) [group_A, group_B] = None \<and>
   get_groups studio True after_enter = (Inr [group_A, group_B], after_groups) \<and>
   fst (browse_project studio ''Project'' (Some []) start) = Inr True \<and>
   select_requests (new_calls start (snd (browse_project studio ''Project'' (Some []) start)))
     = [group_uuid group_B]"
  by (simp add: studio_groups)
     (simp add: operation_defs session_defs select_requests_def)

subsection \<open>The end of a run\<close>

lemma studio_run:
  "fst (browse_project studio ''Project'' None start) = Inr True"
  by (simp add: operation_defs session_defs)







lemma and_then_True:
  "and_then m f w = (Inr True, w') \<longleftrightarrow> (\<exists>x w1. m w = (Inr x, w1) \<and> f x w1 = (Inr True, w'))"
  by (auto simp: and_then_def split: prod.splits sum.splits)

lemma review_phase_True:
  "review_phase C w = (Inr True, w') \<longleftrightarrow>
     (\<exists>queue w8 w9. get_render_queue C w = (Inr queue, w8) \<and>
        enter_player C None w8 = (Inr (), w9) \<and>
        set_playback_mode C ''PLAY_FRW'' None ''LOOP'' w9 = (Inr (), w'))"
  by (simp add: review_phase_def and_then_True return_def)

lemma thumbnails_phase_True:
  "thumbnails_phase C shs w = (Inr True, w') \<longleftrightarrow>
     shs \<noteq> [] \<and>
     (\<exists>thumbnails w7. thumbnail_loop C 0 (take 5 shs) [] w = (Inr thumbnails, w7) \<and>
        review_phase C w7 = (Inr True, w'))"
  by (simp add: thumbnails_phase_def and_then_True return_def)

lemma timeline_phase_True:
  "timeline_phase C w = (Inr True, w') \<longleftrightarrow>
     (\<exists>c w5 shs w6. get_current_construct C w = (Inr c, w5) \<and>
        get_all_shots C w5 = (Inr shs, w6) \<and> thumbnails_phase C shs w6 = (Inr True, w'))"
  by (simp add: timeline_phase_def and_then_True)

lemma group_phase_True:
  "group_phase C tgn groups w = (Inr True, w') \<longleftrightarrow>
     groups \<noteq> [] \<and>
     (\<exists>tg g w4. target_group tgn groups = Some tg \<and>
        select_group C (group_uuid tg) w = (Inr g, w4) \<and> timeline_phase C w4 = (Inr True, w'))"
  by (auto simp: group_phase_def and_then_True return_def split: option.splits)

lemma browse_steps_True_iff:
  "browse_steps C pn tgn w = (Inr True, w') \<longleftrightarrow> all_steps_return C pn tgn w w'"
  unfolding all_steps_return_def browse_steps_phases and_then_True group_phase_True
    timeline_phase_True thumbnails_phase_True review_phase_True
  by blast

lemma browse_project_printing_refused:
  "browse_project_printing False C pn tgn w = (Inl (OtherError ''UnicodeEncodeError''), w)"
  by (simp add: browse_project_printing_def print_out_def and_then_def)

lemma browse_project_printing_accepted:
  "browse_project_printing True C pn tgn w = browse_project C pn tgn w"
  by (simp add: browse_project_printing_def browse_project_def print_out_def and_then_def
        return_def split: prod.splits sum.splits exn.splits)

text \<open>
  C10. On a console that accepts what is printed, and whatever the client does (its calls
  return or raise, an \<open>ApiException\<close> or any other exception), \<open>browse_project\<close>
  returns a boolean and raises nothing. The boolean is \<open>True\<close> exactly when every step
  has returned: system information, entry into the project, a non-empty list of groups with
  a target in it, the selection of the group, the current construct, a non-empty list of
  shots, the thumbnail loop, the render queue, the entry into the player and the playback
  mode. It is \<open>False\<close> on every other path.
\<close>

theorem browse_project_returns_bool:
  assumes "stdout_ok"
  shows "(\<exists>b. fst (browse_project_printing stdout_ok C pn tgn w) = Inr b) \<and>
         (fst (browse_project_printing stdout_ok C pn tgn w) = Inr True \<longleftrightarrow>
            all_steps_return C pn tgn w (snd (browse_project_printing stdout_ok C pn tgn w)))"
proof -
  from assms have eq: "browse_project_printing stdout_ok C pn tgn w = browse_project C pn tgn w"
    by (simp add: browse_project_printing_accepted)
  obtain r w' where run: "browse_project C pn tgn w = (r, w')"
    by (cases "browse_project C pn tgn w")
  then obtain r0 where
    r0: "browse_steps C pn tgn w = (r0, w')"
        "r = (case r0 of Inr b \<Rightarrow> Inr b | Inl e \<Rightarrow> Inr False)"
    by (rule browse_project_steps)
  have "r = Inr True \<longleftrightarrow> r0 = Inr True" using r0(2) by (auto split: sum.splits)
  also have "\<dots> \<longleftrightarrow> all_steps_return C pn tgn w w'"
    using r0(1) browse_steps_True_iff [of C pn tgn w w'] by auto
  finally have "r = Inr True \<longleftrightarrow> all_steps_return C pn tgn w w'" .
  moreover have "\<exists>b. r = Inr b" using r0(2) by (auto split: sum.splits)
  ultimately show ?thesis using run eq by simp
qed

theorem browse_project_returns_bool_witness:
  "fst (browse_project_printing True studio ''Project'' None start) = Inr True \<and>
   all_steps_return studio ''Project'' None start
     (snd (browse_project_printing True studio ''Project'' None start))"
proof -
  have "fst (browse_project_printing True studio ''Project'' None start) = Inr True"
    by (simp add: browse_project_printing_accepted studio_run)
  with browse_project_returns_bool [of True studio "''Project''" None start] show ?thesis
    by simp
qed

subsection \<open>The thumbnail requests\<close>

lemma snapshot_requests_append [simp]:
  "snapshot_requests (xs @ ys) = snapshot_requests xs @ snapshot_requests ys"
  by (simp add: snapshot_requests_def)

lemma snapshot_of_other: "\<forall>b. a \<noteq> RenderSnapshot b \<Longrightarrow> snapshot_of (a, oc) = []"
  by (cases a) simp_all

lemma snapshot_requests_none:
  "\<forall>c \<in> set cs. \<forall>b. fst c \<noteq> RenderSnapshot b \<Longrightarrow> snapshot_requests cs = []"
  by (induction cs) (auto simp: snapshot_requests_def snapshot_of_other)

lemma snapshot_requests_early: "\<forall>c \<in> set cs. early_step (fst c) \<Longrightarrow> snapshot_requests cs = []"
  by (rule snapshot_requests_none) auto

lemma generate_thumbnail_run:
  assumes "generate_thumbnail C u f p w = (r, w')"
  shows "\<exists>oc ws.
           calls w' = calls w @
             [(RenderSnapshot \<lparr>snapshot_uuid = u, snapshot_frame = f, snapshot_proxy = True\<rparr>, oc)] \<and>
           writes w' = writes w @ ws \<and>
           (passes (RenderSnapshot \<lparr>snapshot_uuid = u, snapshot_frame = f, snapshot_proxy = True\<rparr>, oc)
              \<and> (\<forall>a \<in> set ws. snd a = Stored) \<longrightarrow> (\<exists>res. r = Inr res))"
proof -
  let ?b = "\<lparr>snapshot_uuid = u, snapshot_frame = f, snapshot_proxy = True\<rparr>"
  let ?path = "case p of None \<Rightarrow> thumbnail_path u (now w) | Some q \<Rightarrow> q"
  obtain r1 w1 where
    i: "invoke (RenderSnapshot ?b) (application_api_do_application_render_snapshot C ?b) w = (r1, w1)"
    by (cases "invoke (RenderSnapshot ?b) (application_api_do_application_render_snapshot C ?b) w")
  from invoke_calls [OF i] have c: "calls w1 = calls w @ [(RenderSnapshot ?b, outcome r1)]"
    and ws: "writes w1 = writes w"
    by simp_all
  show ?thesis
  proof (cases r1)
    case (Inl x)
    show ?thesis
    proof (cases x)
      case (ApiException e)
      with Inl assms i have "r = Inr None" "w' = w1"
        by (auto simp: generate_thumbnail_def Let_def)
      with c ws have "calls w' = calls w @ [(RenderSnapshot ?b, outcome r1)] \<and>
          writes w' = writes w @ [] \<and> (\<exists>res. r = Inr res)" by simp
      then show ?thesis by blast
    next
      case AttributeError
      with Inl assms i have "w' = w1" by (auto simp: generate_thumbnail_def Let_def)
      with c ws Inl AttributeError have "calls w' = calls w @ [(RenderSnapshot ?b, Some AttributeError)] \<and>
          writes w' = writes w @ [] \<and> \<not> passes (RenderSnapshot ?b, Some AttributeError)"
        by (simp add: outcome_def)
      then show ?thesis by blast
    next
      case (OtherError m)
      with Inl assms i have "w' = w1" by (auto simp: generate_thumbnail_def Let_def)
      with c ws Inl OtherError have "calls w' = calls w @ [(RenderSnapshot ?b, Some (OtherError m))] \<and>
          writes w' = writes w @ [] \<and> \<not> passes (RenderSnapshot ?b, Some (OtherError m))"
        by (simp add: outcome_def)
      then show ?thesis by blast
    qed
  next
    case (Inr response)
    show ?thesis
    proof (cases "headers response ''Content-Type'' = Some ''image/jpeg'' \<and> data response \<noteq> None")
      case False
      with Inr assms i have "r = Inr (Some ?path)" "w' = w1"
        by (auto simp: generate_thumbnail_def Let_def split: option.splits)
      with c ws have "calls w' = calls w @ [(RenderSnapshot ?b, outcome r1)] \<and>
          writes w' = writes w @ [] \<and> (\<exists>res. r = Inr res)" by simp
      then show ?thesis by blast
    next
      case True
      then obtain bytes where bytes: "data response = Some bytes" by auto
      obtain r2 w2 where wf: "write_file ?path bytes w1 = (r2, w2)"
        by (cases "write_file ?path bytes w1")
      from write_file_run [OF wf] obtain res where
        2: "calls w2 = calls w1" "writes w2 = writes w1 @ [(?path, res)]"
           "res = Stored \<longleftrightarrow> (\<exists>v. r2 = Inr v)" by blast
      from True bytes Inr assms i wf have fin: "w' = w2"
        "r = (case r2 of Inl x \<Rightarrow> Inl x | Inr v \<Rightarrow> Inr (Some ?path))"
        by (auto simp: generate_thumbnail_def Let_def split: sum.splits)
      have "res = Stored \<longrightarrow> (\<exists>out. r = Inr out)"
        using 2(3) fin(2) by (auto split: sum.splits)
      with c ws 2 fin(1) have "calls w' = calls w @ [(RenderSnapshot ?b, outcome r1)] \<and>
          writes w' = writes w @ [(?path, res)] \<and>
          ((\<forall>a \<in> set [(?path, res)]. snd a = Stored) \<longrightarrow> (\<exists>out. r = Inr out))" by simp
      then show ?thesis by blast
    qed
  qed
qed

lemma thumbnail_loop_snapshots:
  "thumbnail_loop C i shs acc w = (r, w') \<Longrightarrow>
     \<exists>cs ws k. calls w' = calls w @ cs \<and> writes w' = writes w @ ws \<and> k \<le> length shs \<and>
       snapshot_requests cs = map snap (take k shs) \<and>
       ((\<exists>t. r = Inr t) \<longrightarrow> k = length shs) \<and>
       ((\<forall>c \<in> set cs. passes c) \<and> (\<forall>a \<in> set ws. snd a = Stored) \<longrightarrow> (\<exists>t. r = Inr t))"
proof (induction shs arbitrary: i acc w)
  case Nil
  then have "calls w' = calls w @ [] \<and> writes w' = writes w @ [] \<and> (\<exists>t. r = Inr t)" by auto
  then show ?case by (auto simp: snapshot_requests_def)
next
  case (Cons sh shs)
  obtain r1 w1 where
    g: "generate_thumbnail C (info_uuid sh) 0 (Some (project_thumb_path i (info_uuid sh))) w = (r1, w1)"
    by (cases "generate_thumbnail C (info_uuid sh) 0 (Some (project_thumb_path i (info_uuid sh))) w")
  from generate_thumbnail_run [OF g] obtain oc ws1 where
    c1: "calls w1 = calls w @ [(RenderSnapshot (snap sh), oc)]"
    and w1: "writes w1 = writes w @ ws1"
    and ok1: "passes (RenderSnapshot (snap sh), oc) \<and> (\<forall>a \<in> set ws1. snd a = Stored)
                \<longrightarrow> (\<exists>res. r1 = Inr res)"
    by (auto simp: snap_def)
  have req1: "snapshot_requests [(RenderSnapshot (snap sh), oc)] = [snap sh]"
    by (simp add: snapshot_requests_def)
  show ?case
  proof (cases r1)
    case (Inl e)
    with g Cons.prems have "r = Inl e" "w' = w1" by auto
    with c1 w1 ok1 Inl req1 have "calls w' = calls w @ [(RenderSnapshot (snap sh), oc)] \<and>
       writes w' = writes w @ ws1 \<and> Suc 0 \<le> length (sh # shs) \<and>
       snapshot_requests [(RenderSnapshot (snap sh), oc)] = map snap (take (Suc 0) (sh # shs)) \<and>
       ((\<exists>t. r = Inr t) \<longrightarrow> Suc 0 = length (sh # shs)) \<and>
       ((\<forall>c \<in> set [(RenderSnapshot (snap sh), oc)]. passes c) \<and> (\<forall>a \<in> set ws1. snd a = Stored)
           \<longrightarrow> (\<exists>t. r = Inr t))"
      by auto
    then show ?thesis by blast
  next
    case (Inr res)
    with g Cons.prems have "thumbnail_loop C (Suc i) shs
          (case res of None \<Rightarrow> acc | Some p \<Rightarrow> if p = [] then acc else acc @ [p]) w1 = (r, w')" by simp
    from Cons.IH [OF this] obtain cs ws k where
      2: "calls w' = calls w1 @ cs" "writes w' = writes w1 @ ws" "k \<le> length shs"
         "snapshot_requests cs = map snap (take k shs)"
         "(\<exists>t. r = Inr t) \<longrightarrow> k = length shs"
         "(\<forall>c \<in> set cs. passes c) \<and> (\<forall>a \<in> set ws. snd a = Stored) \<longrightarrow> (\<exists>t. r = Inr t)"
      by blast
    let ?cs = "(RenderSnapshot (snap sh), oc) # cs"
    have req: "snapshot_requests ?cs = snap sh # snapshot_requests cs"
      by (simp add: snapshot_requests_def)
    from c1 w1 2 req have "calls w' = calls w @ ?cs \<and> writes w' = writes w @ (ws1 @ ws) \<and>
       Suc k \<le> length (sh # shs) \<and>
       snapshot_requests ?cs = map snap (take (Suc k) (sh # shs)) \<and>
       ((\<exists>t. r = Inr t) \<longrightarrow> Suc k = length (sh # shs)) \<and>
       ((\<forall>c \<in> set ?cs. passes c) \<and> (\<forall>a \<in> set (ws1 @ ws). snd a = Stored)
           \<longrightarrow> (\<exists>t. r = Inr t))"
      by auto
    then show ?thesis by blast
  qed
qed

lemma take_min_length: "take (min (length xs) n) xs = take n xs"
  by (cases "length xs \<le> n") (simp_all add: min_def)

lemma review_phase_no_snapshot: "issues (\<lambda>c. \<forall>b. c \<noteq> RenderSnapshot b) (review_phase C)"
  unfolding review_phase_def
  by (intro issues_and_then issues_return issues_weaken [OF get_render_queue_issues])
     (auto intro!: issuesI dest!: enter_player_calls set_playback_mode_calls)

lemma studio_select:
  "select_group studio (group_uuid group_B) after_groups = (Inr group_B, after_select)"
  by (simp add: after_select_def after_groups_def after_enter_def after_info_def
        operation_defs session_defs)

lemma studio_construct:
  "get_current_construct studio after_select = (Inr reel, after_construct)"
  by (simp add: after_construct_def get_current_construct_def invoke_def studio_def
         split: prod.splits)

lemma studio_all_shots:
  "get_all_shots studio after_construct = (Inr studio_shots, after_shots)"
  by (simp add: after_shots_def studio_shots_def get_all_shots_def invoke_def studio_def
        reel_def safe_get_attr_def split: prod.splits)

subsection \<open>The thumbnail files\<close>

lemma quietI:
  assumes "issues K m" "\<And>c. K c \<Longrightarrow> \<forall>b. c \<noteq> RenderSnapshot b"
    and "\<And>w. files (snd (m w)) = files w"
  shows "quiet m"
  unfolding quiet_def
proof (intro allI conjI)
  fix w
  show "files (snd (m w)) = files w" by (rule assms(3))
  from assms(1) obtain cs where "calls (snd (m w)) = calls w @ cs" "\<forall>c \<in> set cs. K (fst c)"
    unfolding issues_def by blast
  with assms(2) have "calls (snd (m w)) = calls w @ cs \<and> snapshot_requests cs = []"
    by (auto intro!: snapshot_requests_none)
  then show "\<exists>cs. calls (snd (m w)) = calls w @ cs \<and> snapshot_requests cs = []" ..
qed

lemma quiet_return: "quiet (return x)"
  by (simp add: quiet_def return_def snapshot_requests_def)

lemma quiet_and_then:
  assumes "quiet m" "\<And>x. quiet (f x)"
  shows "quiet (and_then m f)"
  unfolding quiet_def
proof
  fix w
  obtain r1 w1 where m: "m w = (r1, w1)" by (cases "m w")
  from assms(1) m obtain cs1 where
    1: "files w1 = files w" "calls w1 = calls w @ cs1" "snapshot_requests cs1 = []"
    unfolding quiet_def by (metis snd_conv)
  show "files (snd (and_then m f w)) = files w \<and>
        (\<exists>cs. calls (snd (and_then m f w)) = calls w @ cs \<and> snapshot_requests cs = [])"
  proof (cases r1)
    case (Inl e)
    with m 1 show ?thesis by (auto simp: and_then_def)
  next
    case (Inr x)
    from assms(2) [of x] obtain cs2 where
      "files (snd (f x w1)) = files w1" "calls (snd (f x w1)) = calls w1 @ cs2"
      "snapshot_requests cs2 = []"
      unfolding quiet_def by blast
    with 1 have "files (snd (f x w1)) = files w \<and>
        calls (snd (f x w1)) = calls w @ (cs1 @ cs2) \<and> snapshot_requests (cs1 @ cs2) = []"
      by simp
    with m Inr show ?thesis by (auto simp: and_then_def)
  qed
qed

lemma get_system_info_quiet: "quiet (get_system_info C)"
  by (rule quietI [OF get_system_info_issues])
     (auto simp: get_system_info_def invoke_def split: prod.splits sum.splits exn.splits option.splits)

lemma enter_project_quiet: "quiet (enter_project C pn)"
  by (rule quietI [OF enter_project_issues])
     (auto simp: enter_project_def and_then_def invoke_def
           split: prod.splits sum.splits exn.splits option.splits)

lemma get_groups_quiet: "quiet (get_groups C d)"
  by (rule quietI [OF get_groups_issues])
     (auto simp: get_groups_def Let_def invoke_def
           split: prod.splits sum.splits exn.splits option.splits)

lemma select_group_quiet: "quiet (select_group C u)"
  by (rule quietI [OF select_group_issues])
     (auto simp: select_group_def invoke_def split: prod.splits sum.splits)

lemma get_current_construct_quiet: "quiet (get_current_construct C)"
  by (rule quietI [OF get_current_construct_issues])
     (auto simp: get_current_construct_def invoke_def split: prod.splits sum.splits)

lemma get_all_shots_quiet: "quiet (get_all_shots C)"
  by (rule quietI [OF get_all_shots_issues])
     (auto simp: get_all_shots_def invoke_def split: prod.splits sum.splits exn.splits)

lemma review_phase_quiet: "quiet (review_phase C)"
proof (rule quietI [OF review_phase_no_snapshot])
  fix w
  show "files (snd (review_phase C w)) = files w"
    by (auto simp: review_phase_def and_then_def return_def get_render_queue_def enter_player_def
          set_playback_mode_def invoke_def Let_def
          split: prod.splits sum.splits exn.splits if_splits)
qed simp

lemma tidy_quiet: "quiet m \<Longrightarrow> tidy m"
  unfolding quiet_def tidy_def by metis

lemma tidy_after_quiet:
  assumes "quiet m" "\<And>x. tidy (f x)"
  shows "tidy (and_then m f)"
  unfolding tidy_def
proof
  fix w
  obtain r1 w1 where m: "m w = (r1, w1)" by (cases "m w")
  from assms(1) m obtain cs1 where
    1: "files w1 = files w" "calls w1 = calls w @ cs1" "snapshot_requests cs1 = []"
    unfolding quiet_def by (metis snd_conv)
  show "\<exists>cs. calls (snd (and_then m f w)) = calls w @ cs \<and>
          (\<forall>q. files (snd (and_then m f w)) q \<noteq> files w q \<longrightarrow> named_by_request q cs)"
  proof (cases r1)
    case (Inl e)
    with m 1 show ?thesis by (auto simp: and_then_def)
  next
    case (Inr x)
    from assms(2) [of x] obtain cs2 where
      2: "calls (snd (f x w1)) = calls w1 @ cs2"
         "\<forall>q. files (snd (f x w1)) q \<noteq> files w1 q \<longrightarrow> named_by_request q cs2"
      unfolding tidy_def by blast
    have "named_by_request q (cs1 @ cs2) = named_by_request q cs2" for q
      using 1(3) by (simp add: named_by_request_def)
    with 1 2 have "calls (snd (f x w1)) = calls w @ (cs1 @ cs2) \<and>
      (\<forall>q. files (snd (f x w1)) q \<noteq> files w q \<longrightarrow> named_by_request q (cs1 @ cs2))"
      by simp
    with m Inr show ?thesis by (auto simp: and_then_def)
  qed
qed

lemma tidy_before_quiet:
  assumes "tidy m" "\<And>x. quiet (f x)"
  shows "tidy (and_then m f)"
  unfolding tidy_def
proof
  fix w
  obtain r1 w1 where m: "m w = (r1, w1)" by (cases "m w")
  from assms(1) m obtain cs1 where
    1: "calls w1 = calls w @ cs1" "\<forall>q. files w1 q \<noteq> files w q \<longrightarrow> named_by_request q cs1"
    unfolding tidy_def by (metis snd_conv)
  show "\<exists>cs. calls (snd (and_then m f w)) = calls w @ cs \<and>
          (\<forall>q. files (snd (and_then m f w)) q \<noteq> files w q \<longrightarrow> named_by_request q cs)"
  proof (cases r1)
    case (Inl e)
    with m 1 show ?thesis by (auto simp: and_then_def)
  next
    case (Inr x)
    from assms(2) [of x] obtain cs2 where
      2: "files (snd (f x w1)) = files w1" "calls (snd (f x w1)) = calls w1 @ cs2"
         "snapshot_requests cs2 = []"
      unfolding quiet_def by blast
    have "named_by_request q (cs1 @ cs2) = named_by_request q cs1" for q
      using 2(3) by (simp add: named_by_request_def)
    with 1 2 have "calls (snd (f x w1)) = calls w @ (cs1 @ cs2) \<and>
      (\<forall>q. files (snd (f x w1)) q \<noteq> files w q \<longrightarrow> named_by_request q (cs1 @ cs2))"
      by simp
    with m Inr show ?thesis by (auto simp: and_then_def)
  qed
qed

lemma generate_thumbnail_files:
  assumes "generate_thumbnail C sid f out w = (r, w')"
  shows "\<forall>q. files w' q \<noteq> files w q \<longrightarrow>
           q = (case out of None \<Rightarrow> thumbnail_path sid (now w) | Some p \<Rightarrow> p)"
  using assms
  by (auto simp: generate_thumbnail_def write_file_def Let_def invoke_def
        split: prod.splits sum.splits exn.splits option.splits if_splits write_result.splits)

lemma snap_uuid: "snapshot_uuid (snap sh) = info_uuid sh"
  by (simp add: snap_def)

lemma tidy_return: "tidy (return x)"
  by (rule tidy_quiet [OF quiet_return])

lemma thumbnail_loop_files:
  "thumbnail_loop C i shs acc w = (r, w') \<Longrightarrow>
     \<exists>cs. calls w' = calls w @ cs \<and> length (snapshot_requests cs) \<le> length shs \<and>
       (\<forall>q. files w' q \<noteq> files w q \<longrightarrow>
          (\<exists>j < length (snapshot_requests cs).
             q = project_thumb_path (i + j) (snapshot_uuid (snapshot_requests cs ! j))))"
proof (induction shs arbitrary: i acc w)
  case Nil
  then have "calls w' = calls w @ [] \<and> files w' = files w" by auto
  then show ?case by (auto simp: snapshot_requests_def)
next
  case (Cons sh shs)
  let ?p = "project_thumb_path i (info_uuid sh)"
  obtain r1 w1 where g: "generate_thumbnail C (info_uuid sh) 0 (Some ?p) w = (r1, w1)"
    by (cases "generate_thumbnail C (info_uuid sh) 0 (Some ?p) w")
  from generate_thumbnail_run [OF g] obtain oc where
    c1: "calls w1 = calls w @ [(RenderSnapshot (snap sh), oc)]"
    by (auto simp: snap_def)
  from generate_thumbnail_files [OF g]
  have f1: "\<forall>q. files w1 q \<noteq> files w q \<longrightarrow> q = ?p" by simp
  have req1: "snapshot_requests [(RenderSnapshot (snap sh), oc)] = [snap sh]"
    by (simp add: snapshot_requests_def)
  show ?case
  proof (cases r1)
    case (Inl e)
    with g Cons.prems have "w' = w1" by auto
    with c1 f1 req1 have "calls w' = calls w @ [(RenderSnapshot (snap sh), oc)] \<and>
       length (snapshot_requests [(RenderSnapshot (snap sh), oc)]) \<le> length (sh # shs) \<and>
       (\<forall>q. files w' q \<noteq> files w q \<longrightarrow>
          (\<exists>j < length (snapshot_requests [(RenderSnapshot (snap sh), oc)]).
             q = project_thumb_path (i + j)
                   (snapshot_uuid (snapshot_requests [(RenderSnapshot (snap sh), oc)] ! j))))"
      by (auto simp: snap_def)
    then show ?thesis by blast
  next
    case (Inr res)
    with g Cons.prems have "thumbnail_loop C (Suc i) shs
          (case res of None \<Rightarrow> acc | Some p \<Rightarrow> if p = [] then acc else acc @ [p]) w1 = (r, w')" by simp
    from Cons.IH [OF this] obtain cs where
      2: "calls w' = calls w1 @ cs" "length (snapshot_requests cs) \<le> length shs"
         "\<forall>q. files w' q \<noteq> files w1 q \<longrightarrow>
            (\<exists>j < length (snapshot_requests cs).
               q = project_thumb_path (Suc i + j) (snapshot_uuid (snapshot_requests cs ! j)))"
      by blast
    let ?cs = "(RenderSnapshot (snap sh), oc) # cs"
    have req: "snapshot_requests ?cs = snap sh # snapshot_requests cs"
      by (simp add: snapshot_requests_def)
    have "\<exists>j < length (snapshot_requests ?cs).
             q = project_thumb_path (i + j) (snapshot_uuid (snapshot_requests ?cs ! j))"
      if q: "files w' q \<noteq> files w q" for q
    proof (cases "files w' q = files w1 q")
      case True
      with q f1 have "q = ?p" by simp
      then have "0 < length (snapshot_requests ?cs) \<and>
          q = project_thumb_path (i + 0) (snapshot_uuid (snapshot_requests ?cs ! 0))"
        by (simp add: req snap_uuid)
      then show ?thesis by blast
    next
      case False
      with 2(3) obtain j where "j < length (snapshot_requests cs)"
        "q = project_thumb_path (Suc i + j) (snapshot_uuid (snapshot_requests cs ! j))"
        by blast
      then have "Suc j < length (snapshot_requests ?cs) \<and>
          q = project_thumb_path (i + Suc j) (snapshot_uuid (snapshot_requests ?cs ! Suc j))"
        by (simp add: req)
      then show ?thesis by blast
    qed
    moreover have "calls w' = calls w @ ?cs" using c1 2(1) by simp
    moreover have "length (snapshot_requests ?cs) \<le> length (sh # shs)" using 2(2) req by simp
    ultimately show ?thesis by blast
  qed
qed

lemma thumbnail_loop_tidy: "tidy (thumbnail_loop C 0 (take 5 shs) [])"
  unfolding tidy_def
proof
  fix w
  obtain r w' where run: "thumbnail_loop C 0 (take 5 shs) [] w = (r, w')"
    by (cases "thumbnail_loop C 0 (take 5 shs) [] w")
  from thumbnail_loop_files [OF run] obtain cs where
    "calls w' = calls w @ cs" "length (snapshot_requests cs) \<le> length (take 5 shs)"
    "\<forall>q. files w' q \<noteq> files w q \<longrightarrow>
          (\<exists>j < length (snapshot_requests cs).
             q = project_thumb_path (0 + j) (snapshot_uuid (snapshot_requests cs ! j)))"
    by blast
  then have "calls w' = calls w @ cs \<and>
     (\<forall>q. files w' q \<noteq> files w q \<longrightarrow> named_by_request q cs)"
    unfolding named_by_request_def by fastforce
  with run show "\<exists>cs. calls (snd (thumbnail_loop C 0 (take 5 shs) [] w)) = calls w @ cs \<and>
     (\<forall>q. files (snd (thumbnail_loop C 0 (take 5 shs) [] w)) q \<noteq> files w q
           \<longrightarrow> named_by_request q cs)"
    by auto
qed

lemma thumbnails_phase_tidy: "tidy (thumbnails_phase C shs)"
  unfolding thumbnails_phase_def
  by (simp add: tidy_return tidy_before_quiet [OF thumbnail_loop_tidy review_phase_quiet])

lemma timeline_phase_tidy: "tidy (timeline_phase C)"
  unfolding timeline_phase_def
  by (intro tidy_after_quiet [OF get_current_construct_quiet]
        tidy_after_quiet [OF get_all_shots_quiet] thumbnails_phase_tidy)

lemma group_phase_tidy: "tidy (group_phase C tgn groups)"
  unfolding group_phase_def
  by (auto intro!: tidy_return tidy_after_quiet [OF select_group_quiet] timeline_phase_tidy
        split: option.splits)

lemma browse_steps_tidy: "tidy (browse_steps C pn tgn)"
  unfolding browse_steps_phases
  by (intro tidy_after_quiet [OF get_system_info_quiet] tidy_after_quiet [OF enter_project_quiet]
        tidy_after_quiet [OF get_groups_quiet] group_phase_tidy)

lemma browse_project_world: "snd (browse_project C pn tgn w) = snd (browse_steps C pn tgn w)"
  by (simp add: browse_project_def split: prod.splits sum.splits exn.splits)

lemma studio_thumbnail_written:
  "files (snd (browse_project studio ''Project'' None start)) ''/tmp/project_thumb_0_a1b2c3d4.jpg''
     = Some ''JFIF''"
  by (simp add: operation_defs session_defs)

text \<open>
  C9 (amended). Every thumbnail file is written under \<open>/tmp/\<close> and its name carries
  the first 8 characters of the shot identifier. \<open>generate_thumbnail\<close> called without
  an output path names the file \<open>/tmp/thumbnail_<prefix>_<timestamp>.jpg\<close>; the workflow
  always passes a path, \<open>/tmp/project_thumb_<j>_<prefix>.jpg\<close>, where \<open>j\<close> (0 to 4) is
  the position of the snapshot request among those of the run and the prefix is taken from
  the identifier of that request: its files carry the loop index, not a timestamp.
\<close>

theorem thumbnail_file_names:
  "(\<forall>q. files (snd (generate_thumbnail C sid f None w)) q \<noteq> files w q
        \<longrightarrow> q = thumbnail_path sid (now w)) \<and>
   (\<forall>q. files (snd (browse_project C pn tgn w)) q \<noteq> files w q \<longrightarrow>
        (\<exists>j. j < length (snapshot_requests (new_calls w (snd (browse_project C pn tgn w)))) \<and>
             j < 5 \<and>
             q = project_thumb_path j
                   (snapshot_uuid
                      (snapshot_requests (new_calls w (snd (browse_project C pn tgn w))) ! j)))) \<and>
   take 5 (thumbnail_path sid ts) = ''/tmp/'' \<and>
   take 5 (project_thumb_path i sid) = ''/tmp/''"
proof (intro conjI)
  show "\<forall>q. files (snd (generate_thumbnail C sid f None w)) q \<noteq> files w q
        \<longrightarrow> q = thumbnail_path sid (now w)"
    using generate_thumbnail_files [of C sid f None w "fst (generate_thumbnail C sid f None w)"
        "snd (generate_thumbnail C sid f None w)"]
    by simp
next
  from browse_steps_tidy [of C pn tgn] obtain cs where
    "calls (snd (browse_steps C pn tgn w)) = calls w @ cs"
    "\<forall>q. files (snd (browse_steps C pn tgn w)) q \<noteq> files w q \<longrightarrow> named_by_request q cs"
    unfolding tidy_def by blast
  then show "\<forall>q. files (snd (browse_project C pn tgn w)) q \<noteq> files w q \<longrightarrow>
        (\<exists>j. j < length (snapshot_requests (new_calls w (snd (browse_project C pn tgn w)))) \<and>
             j < 5 \<and>
             q = project_thumb_path j
                   (snapshot_uuid
                      (snapshot_requests (new_calls w (snd (browse_project C pn tgn w))) ! j)))"
    by (simp add: browse_project_world new_calls_def named_by_request_def)
next
  show "take 5 (thumbnail_path sid ts) = ''/tmp/''" by (simp add: thumbnail_path_def)
next
  show "take 5 (project_thumb_path i sid) = ''/tmp/''" by (simp add: project_thumb_path_def)
qed

theorem thumbnail_file_names_witness:
  "files (snd (browse_project studio ''Project'' None start)) ''/tmp/project_thumb_0_a1b2c3d4.jpg''
     \<noteq> files start ''/tmp/project_thumb_0_a1b2c3d4.jpg'' \<and>
   (\<exists>j. j < length (snapshot_requests
                     (new_calls start (snd (browse_project studio ''Project'' None start)))) \<and>
        j < 5 \<and>
        ''/tmp/project_thumb_0_a1b2c3d4.jpg'' =
          project_thumb_path j
            (snapshot_uuid
               (snapshot_requests
                  (new_calls start (snd (browse_project studio ''Project'' None start))) ! j)))"
proof -
  have h: "files (snd (browse_project studio ''Project'' None start))
             ''/tmp/project_thumb_0_a1b2c3d4.jpg''
           \<noteq> files start ''/tmp/project_thumb_0_a1b2c3d4.jpg''"
    by (simp add: studio_thumbnail_written) (simp add: start_def)
  with thumbnail_file_names [of studio _ _ start "''Project''" None] show ?thesis by blast
qed

text \<open>
  C9 as stated fails on the files of the workflow: the file written for the first shot is
  \<open>/tmp/project_thumb_0_a1b2c3d4.jpg\<close> whatever the clock reads, which is not the name
  with a timestamp.
\<close>

theorem thumbnail_file_names_counterexample:
  "files start ''/tmp/project_thumb_0_a1b2c3d4.jpg'' = None \<and>
   files (snd (browse_project studio ''Project'' None start)) ''/tmp/project_thumb_0_a1b2c3d4.jpg''
     = Some ''JFIF'' \<and>
   files (snd (browse_project studio ''Project'' None (start\<lparr>now := ''19991231_235959''\<rparr>)))
       ''/tmp/project_thumb_0_a1b2c3d4.jpg''
     = Some ''JFIF'' \<and>
   ''/tmp/project_thumb_0_a1b2c3d4.jpg'' \<noteq> thumbnail_path (shot_uuid shot_a1) (now start)"
  by (simp add: operation_defs session_defs thumbnail_path_def)

subsection \<open>Entering a project, listing the groups, writing a thumbnail\<close>

lemma enter_project_try:
  assumes "and_then (invoke (ProjectEnter pn) (application_api_do_application_project_enter C pn))
             (\<lambda>_. invoke GetProjectsCurrent (projects_api_get_projects_current C)) w1 = (r2, w2)"
  shows "(\<exists>x. calls w2 = calls w1 @ [(ProjectEnter pn, Some x)] \<and> r2 = Inl x) \<or>
         (\<exists>x. calls w2 = calls w1 @ [(ProjectEnter pn, None), (GetProjectsCurrent, Some x)] \<and>
              r2 = Inl x) \<or>
         (\<exists>p s. calls w2 = calls w1 @ [(ProjectEnter pn, None), (GetProjectsCurrent, None)] \<and>
              r2 = Inr p \<and> projects_api_get_projects_current C s = (Inr p, remote w2))"
  using assms
proof (cases rule: and_then_cases)
  case (Raise e)
  from invoke_calls [OF Raise(1)] Raise(2) show ?thesis by (simp add: outcome_def)
next
  case (Next u wa)
  from invoke_calls [OF Next(1)] have a: "calls wa = calls w1 @ [(ProjectEnter pn, None)]"
    by (simp add: outcome_def)
  from invoke_calls [OF Next(2)] have b: "calls w2 = calls wa @ [(GetProjectsCurrent, outcome r2)]"
    "projects_api_get_projects_current C (remote wa) = (r2, remote w2)" by simp_all
  show ?thesis
  proof (cases r2)
    case (Inl x)
    with a b show ?thesis by (simp add: outcome_def)
  next
    case (Inr p)
    with a b show ?thesis by (auto simp: outcome_def)
  qed
qed

text \<open>
  C7 (amended). \<open>enter_project\<close> first requests the exit from the open project. When
  that request raises something other than an \<open>ApiException\<close>, the exception
  reaches the caller and nothing else is requested. Otherwise its outcome is ignored and the entry
  into the named project is requested, then the current project is fetched. When the entry
  or the fetch raises, \<open>enter_project\<close> fails, with the same \<open>ApiException\<close> if the
  handler can print its body; when both return, it returns the project that was fetched.
\<close>

theorem enter_project_outcome:
  assumes "enter_project C pn w = (r, w')"
  shows "\<exists>oc.
     (\<not> ignored oc \<and> new_calls w w' = [(ProjectExit, oc)] \<and> r = Inl (the oc)) \<or>
     (ignored oc \<and>
        (\<exists>x. new_calls w w' = [(ProjectExit, oc), (ProjectEnter pn, Some x)] \<and>
             failed_with C x r)) \<or>
     (ignored oc \<and>
        (\<exists>x. new_calls w w' =
               [(ProjectExit, oc), (ProjectEnter pn, None), (GetProjectsCurrent, Some x)] \<and>
             failed_with C x r)) \<or>
     (ignored oc \<and>
        new_calls w w' = [(ProjectExit, oc), (ProjectEnter pn, None), (GetProjectsCurrent, None)] \<and>
        (\<exists>p s. r = Inr p \<and> projects_api_get_projects_current C s = (Inr p, remote w')))"
proof -
  obtain r0 w1 where ex: "invoke ProjectExit (application_api_do_application_project_exit C) w = (r0, w1)"
    by (cases "invoke ProjectExit (application_api_do_application_project_exit C) w")
  from invoke_calls [OF ex] have c0: "calls w1 = calls w @ [(ProjectExit, outcome r0)]" by simp
  show ?thesis
  proof (cases "ignored (outcome r0)")
    case False
    then obtain x where x: "r0 = Inl x" "\<forall>e. x \<noteq> ApiException e"
      by (cases r0) (auto simp: outcome_def elim: ignored.elims)
    with assms ex have "r = Inl x" "w' = w1"
      by (auto simp: enter_project_def split: exn.splits)
    with c0 x False have "\<not> ignored (outcome r0) \<and> new_calls w w' = [(ProjectExit, outcome r0)] \<and>
        r = Inl (the (outcome r0))"
      by (simp add: new_calls_def outcome_def)
    then show ?thesis by blast
  next
    case True
    let ?attempt = "and_then (invoke (ProjectEnter pn) (application_api_do_application_project_enter C pn))
             (\<lambda>_. invoke GetProjectsCurrent (projects_api_get_projects_current C))"
    obtain r2 w2 where t: "?attempt w1 = (r2, w2)" by (cases "?attempt w1")
    from True assms ex t have fin: "w' = w2"
      "r = (case r2 of
              Inr current \<Rightarrow> Inr current
            | Inl (ApiException e) \<Rightarrow>
                (case dump_body C e of Some x \<Rightarrow> Inl x | None \<Rightarrow> Inl (ApiException e))
            | Inl x \<Rightarrow> Inl x)"
      by (auto simp: enter_project_def outcome_def split: sum.splits exn.splits option.splits)
    have fw: "failed_with C x r" if "r2 = Inl x" for x
      using that fin(2) by (cases x) (auto simp: failed_with_def split: option.splits)
    from enter_project_try [OF t] consider
        (enter) x where "calls w2 = calls w1 @ [(ProjectEnter pn, Some x)]" "r2 = Inl x"
      | (fetch) x where
          "calls w2 = calls w1 @ [(ProjectEnter pn, None), (GetProjectsCurrent, Some x)]" "r2 = Inl x"
      | (both) p s where
          "calls w2 = calls w1 @ [(ProjectEnter pn, None), (GetProjectsCurrent, None)]"
          "r2 = Inr p" "projects_api_get_projects_current C s = (Inr p, remote w2)"
      by blast
    then show ?thesis
    proof cases
      case (enter x)
      with c0 fin(1) fw have "new_calls w w' = [(ProjectExit, outcome r0), (ProjectEnter pn, Some x)] \<and>
          failed_with C x r"
        by (simp add: new_calls_def)
      with True show ?thesis by blast
    next
      case (fetch x)
      with c0 fin(1) fw have "new_calls w w' =
          [(ProjectExit, outcome r0), (ProjectEnter pn, None), (GetProjectsCurrent, Some x)] \<and>
          failed_with C x r"
        by (simp add: new_calls_def)
      with True show ?thesis by blast
    next
      case (both p s)
      with c0 fin have "new_calls w w' =
          [(ProjectExit, outcome r0), (ProjectEnter pn, None), (GetProjectsCurrent, None)] \<and>
          r = Inr p \<and> projects_api_get_projects_current C s = (Inr p, remote w')"
        by (simp add: new_calls_def)
      with True show ?thesis by blast
    qed
  qed
qed

theorem enter_project_outcome_witness:
  "\<exists>oc. ignored oc \<and>
      new_calls after_info after_enter =
        [(ProjectExit, oc), (ProjectEnter ''Project'', None), (GetProjectsCurrent, None)]"
  using enter_project_outcome [OF studio_enter]
  by (auto simp: failed_with_def)

text \<open>
  C7 as stated fails where the entry succeeds and the fetch of the current project does not:
  \<open>enter_project\<close> fails with an \<open>ApiException\<close> although the entry request
  returned.
\<close>

theorem enter_project_outcome_counterexample:
  "fst (enter_project studio_stale ''Project'' start) = Inl (ApiException server_error) \<and>
   new_calls start (snd (enter_project studio_stale ''Project'' start)) =
     [(ProjectExit, Some (ApiException no_project_open)), (ProjectEnter ''Project'', None),
      (GetProjectsCurrent, Some (ApiException server_error))]"
  by (simp add: studio_stale_def operation_defs session_defs)

lemma get_groups_with_body:
  assumes "projects_api_get_groups C (if d then ''ALL'' else []) (remote w) = (Inl (ApiException e), s)"
    and "body e = Some b" and "json_loads C b = Inr ()"
  shows "fst (get_groups C d w) = Inr []"
  using assms by (simp add: get_groups_def invoke_def Let_def)

lemma get_groups_no_body:
  assumes "projects_api_get_groups C (if d then ''ALL'' else []) (remote w) = (Inl (ApiException e), s)"
    and "body e = None"
  shows "fst (get_groups C d w) = Inl AttributeError"
  using assms by (simp add: get_groups_def invoke_def Let_def)

text \<open>
  C6. The claim is that \<open>get_groups\<close> returns the empty list for every
  \<open>ApiException\<close>, also one without a body. On such an error the handler evaluates
  \<open>e.body.decode\<close> on \<open>None\<close>: \<open>get_groups\<close> raises \<open>AttributeError\<close> and the
  workflow ends with \<open>False\<close>. The handlers of \<open>get_system_info\<close>,
  \<open>list_projects\<close> and \<open>enter_project\<close> test \<open>if e.body:\<close> first.
\<close>

theorem get_groups_without_body:
  "body server_error = None \<and>
   projects_api_get_groups studio_down ''ALL'' (remote start)
     = (Inl (ApiException server_error), Suc 0) \<and>
   fst (get_groups studio_down True start) = Inl AttributeError \<and>
   fst (browse_project studio_down ''Project'' None start) = Inr False"
  by (simp add: studio_down_def operation_defs session_defs)

lemma generate_thumbnail_writes_only_jpeg:
  assumes "generate_thumbnail C sid f out w = (r, w')" and "files w' \<noteq> files w"
  shows "\<exists>response s. application_api_do_application_render_snapshot C
            \<lparr>snapshot_uuid = sid, snapshot_frame = f, snapshot_proxy = True\<rparr> (remote w)
              = (Inr response, s) \<and>
           headers response ''Content-Type'' = Some ''image/jpeg''"
  using assms
  by (auto simp: generate_thumbnail_def write_file_def Let_def invoke_def
        split: prod.splits sum.splits exn.splits option.splits if_splits write_result.splits)

text \<open>
  C2. The claim is that \<open>generate_thumbnail\<close> writes nothing and returns a failure
  marker when the response is not an image. For a response of type \<open>text/html\<close> it
  writes nothing, but it returns the output path, which the workflow takes for a saved
  thumbnail.
\<close>

theorem generate_thumbnail_not_image:
  "application_api_do_application_render_snapshot studio
      \<lparr>snapshot_uuid = shot_uuid shot_a2, snapshot_frame = 0, snapshot_proxy = True\<rparr>
      (remote start) = (Inr html_response, Suc 0) \<and>
   headers html_response ''Content-Type'' = Some ''text/html'' \<and>
   fst (generate_thumbnail studio (shot_uuid shot_a2) 0 (Some ''/tmp/t.jpg'') start)
     = Inr (Some ''/tmp/t.jpg'') \<and>
   files (snd (generate_thumbnail studio (shot_uuid shot_a2) 0 (Some ''/tmp/t.jpg'') start))
     = files start"
  by (simp add: operation_defs session_defs)

subsection \<open>The number of thumbnail requests\<close>

lemma quietD:
  assumes "quiet m" "m w = (r, w')"
  obtains cs where "calls w' = calls w @ cs" "snapshot_requests cs = []" "files w' = files w"
  using assms unfolding quiet_def by (metis snd_conv)

lemma get_system_info_writes: "writes (snd (get_system_info C w)) = writes w"
  by (auto simp: get_system_info_def invoke_def split: prod.splits sum.splits exn.splits option.splits)

lemma enter_project_writes: "writes (snd (enter_project C pn w)) = writes w"
  by (auto simp: enter_project_def and_then_def invoke_def
        split: prod.splits sum.splits exn.splits option.splits)

lemma get_groups_writes: "writes (snd (get_groups C d w)) = writes w"
  by (auto simp: get_groups_def Let_def invoke_def
        split: prod.splits sum.splits exn.splits option.splits)

lemma select_group_writes: "writes (snd (select_group C u w)) = writes w"
  by (auto simp: select_group_def invoke_def split: prod.splits sum.splits)

lemma get_current_construct_writes: "writes (snd (get_current_construct C w)) = writes w"
  by (auto simp: get_current_construct_def invoke_def split: prod.splits sum.splits)

lemma get_all_shots_writes: "writes (snd (get_all_shots C w)) = writes w"
  by (auto simp: get_all_shots_def invoke_def split: prod.splits sum.splits exn.splits)

lemma review_phase_writes: "writes (snd (review_phase C w)) = writes w"
  by (auto simp: review_phase_def and_then_def return_def get_render_queue_def enter_player_def
        set_playback_mode_def invoke_def Let_def
        split: prod.splits sum.splits exn.splits if_splits)

lemma thumbnails_phase_snapshots:
  assumes "thumbnails_phase C shs w = (r, w')"
  shows "\<exists>cs ws k. calls w' = calls w @ cs \<and> writes w' = writes w @ ws \<and>
           k \<le> min 5 (length shs) \<and>
           snapshot_requests cs = map snap (take k shs) \<and>
           ((\<forall>c \<in> set cs. passes c) \<and> (\<forall>a \<in> set ws. snd a = Stored)
              \<longrightarrow> k = min 5 (length shs))"
proof (cases "shs = []")
  case True
  with assms have "calls w' = calls w @ [] \<and> writes w' = writes w @ []"
    by (simp add: thumbnails_phase_def return_def)
  with True show ?thesis by (auto simp: snapshot_requests_def)
next
  case False
  with assms have "and_then (thumbnail_loop C 0 (take 5 shs) []) (\<lambda>thumbnails. review_phase C) w = (r, w')"
    by (simp add: thumbnails_phase_def)
  then show ?thesis
  proof (cases rule: and_then_cases)
    case (Raise e)
    from thumbnail_loop_snapshots [OF Raise(1)] obtain cs ws k where
      1: "calls w' = calls w @ cs" "writes w' = writes w @ ws" "k \<le> length (take 5 shs)"
      "snapshot_requests cs = map snap (take k (take 5 shs))"
      "(\<forall>c \<in> set cs. passes c) \<and> (\<forall>a \<in> set ws. snd a = Stored)
         \<longrightarrow> (\<exists>t. (Inl e :: exn + string list) = Inr t)"
      by blast
    from 1(5) have no: "\<not> ((\<forall>c \<in> set cs. passes c) \<and> (\<forall>a \<in> set ws. snd a = Stored))"
      by simp
    from 1(3) have tk: "take k (take 5 shs) = take k shs" and kle: "k \<le> min 5 (length shs)"
      by (auto simp: min_def split: if_splits)
    from 1(4) tk have "snapshot_requests cs = map snap (take k shs)" by simp
    with 1(1,2) kle no have "calls w' = calls w @ cs \<and> writes w' = writes w @ ws \<and>
           k \<le> min 5 (length shs) \<and>
           snapshot_requests cs = map snap (take k shs) \<and>
           ((\<forall>c \<in> set cs. passes c) \<and> (\<forall>a \<in> set ws. snd a = Stored)
              \<longrightarrow> k = min 5 (length shs))"
      by blast
    then show ?thesis by blast
  next
    case (Next t w1)
    from thumbnail_loop_snapshots [OF Next(1)] obtain cs1 ws1 where
      1: "calls w1 = calls w @ cs1" "writes w1 = writes w @ ws1"
         "snapshot_requests cs1 = map snap (take 5 shs)"
      by (auto simp: take_min_length)
    from review_phase_no_snapshot Next(2) obtain cs2 where
      2: "calls w' = calls w1 @ cs2" "\<forall>c \<in> set cs2. \<forall>b. fst c \<noteq> RenderSnapshot b"
      by (rule issuesD)
    from review_phase_writes [of C w1] Next(2) have 3: "writes w' = writes w1" by simp
    from 1 2 3 have "calls w' = calls w @ (cs1 @ cs2) \<and> writes w' = writes w @ ws1 \<and>
      min 5 (length shs) \<le> min 5 (length shs) \<and>
      snapshot_requests (cs1 @ cs2) = map snap (take (min 5 (length shs)) shs)"
      by (simp add: snapshot_requests_none min.commute take_min_length)
    then show ?thesis by blast
  qed
qed

lemma studio_trace:
  "new_calls start (snd (browse_project studio ''Project'' None start)) =
     [(GetSystemProperties, None), (ProjectExit, Some (ApiException no_project_open)),
      (ProjectEnter ''Project'', None), (GetProjectsCurrent, None), (GetGroups ''ALL'', None),
      (SelectGroup ''g-0002'' ''ALL'', None), (GetConstructsCurrent ''ALL'', None),
      (GetConstructsCurrent ''ALL'', None),
      (RenderSnapshot (snap (make_shot_info 0 0 shot_a1)), None),
      (RenderSnapshot (snap (make_shot_info 0 1 shot_a2)), None),
      (RenderSnapshot (snap (make_shot_info 1 0 shot_b1)), None),
      (GetRenderQueue, None), (PlayerEnterTimelineCurrent, None),
      (SetPlaymode workflow_playmode, None)]"
  by (simp add: operation_defs session_defs snap_def workflow_playmode_def)

lemma studio_new_writes:
  "new_writes start (snd (browse_project studio ''Project'' None start)) =
     [(''/tmp/project_thumb_0_a1b2c3d4.jpg'', Stored), (''/tmp/project_thumb_2_c9d0e1f2.jpg'', Stored)]"
  by (simp add: new_writes_def operation_defs session_defs)

text \<open>
  C5 (amended). When the workflow has collected a list of shots, its snapshot requests are
  those of the first \<open>k\<close> shots of the list, in order and at frame 0, for some
  \<open>k\<close> of at most five and at most the number of shots. When no snapshot request of
  the run raises anything but an \<open>ApiException\<close> and no write of the run fails, they
  are exactly those of the first five shots: \<open>min n 5\<close> requests for \<open>n\<close> shots.
\<close>

theorem thumbnail_requests:
  assumes "get_system_info C w = (Inr si, w1)"
    and "enter_project C pn w1 = (Inr p, w2)"
    and "get_groups C True w2 = (Inr groups, w3)"
    and "groups \<noteq> []"
    and "target_group tgn groups = Some tg"
    and "select_group C (group_uuid tg) w3 = (Inr g, w4)"
    and "get_current_construct C w4 = (Inr c, w5)"
    and "get_all_shots C w5 = (Inr shs, w6)"
  shows "(\<exists>k \<le> min 5 (length shs).
            snapshot_requests (new_calls w (snd (browse_project C pn tgn w)))
              = map snap (take k shs)) \<and>
         ((\<forall>c \<in> set (new_calls w (snd (browse_project C pn tgn w))). passes c) \<and>
          (\<forall>a \<in> set (new_writes w (snd (browse_project C pn tgn w))). snd a = Stored) \<longrightarrow>
            snapshot_requests (new_calls w (snd (browse_project C pn tgn w)))
              = map snap (take 5 shs) \<and>
            length (snapshot_requests (new_calls w (snd (browse_project C pn tgn w))))
              = min (length shs) 5)"
proof -
  obtain r w' where run: "browse_project C pn tgn w = (r, w')"
    by (cases "browse_project C pn tgn w")
  then obtain r0 where r0: "browse_steps C pn tgn w = (r0, w')"
    by (rule browse_project_steps)
  from get_system_info_quiet assms(1) obtain cs1 where
    1: "calls w1 = calls w @ cs1" "snapshot_requests cs1 = []" by (rule quietD)
  from enter_project_quiet assms(2) obtain cs2 where
    2: "calls w2 = calls w1 @ cs2" "snapshot_requests cs2 = []" by (rule quietD)
  from get_groups_quiet assms(3) obtain cs3 where
    3: "calls w3 = calls w2 @ cs3" "snapshot_requests cs3 = []" by (rule quietD)
  from select_group_quiet assms(6) obtain cs4 where
    4: "calls w4 = calls w3 @ cs4" "snapshot_requests cs4 = []" by (rule quietD)
  from get_current_construct_quiet assms(7) obtain cs5 where
    5: "calls w5 = calls w4 @ cs5" "snapshot_requests cs5 = []" by (rule quietD)
  from get_all_shots_quiet assms(8) obtain cs6 where
    6: "calls w6 = calls w5 @ cs6" "snapshot_requests cs6 = []" by (rule quietD)
  let ?cs0 = "cs1 @ cs2 @ cs3 @ cs4 @ cs5 @ cs6"
  have before: "calls w6 = calls w @ ?cs0" "snapshot_requests ?cs0 = []"
    using 1 2 3 4 5 6 by simp_all
  have wr: "writes w6 = writes w"
    using get_system_info_writes [of C w] enter_project_writes [of C pn w1]
      get_groups_writes [of C True w2] select_group_writes [of C "group_uuid tg" w3]
      get_current_construct_writes [of C w4] get_all_shots_writes [of C w5] assms
    by simp
  have "thumbnails_phase C shs w6 = (r0, w')"
    using assms r0
    by (simp add: browse_steps_phases group_phase_def timeline_phase_def and_then_def)
  from thumbnails_phase_snapshots [OF this] obtain cs ws k where
    7: "calls w' = calls w6 @ cs" "writes w' = writes w6 @ ws" "k \<le> min 5 (length shs)"
       "snapshot_requests cs = map snap (take k shs)"
       "(\<forall>c \<in> set cs. passes c) \<and> (\<forall>a \<in> set ws. snd a = Stored) \<longrightarrow> k = min 5 (length shs)"
    by blast
  from before(1) 7(1) have nc: "new_calls w w' = ?cs0 @ cs" by (simp add: new_calls_def)
  from wr 7(2) have nw: "new_writes w w' = ws" by (simp add: new_writes_def)
  from nc before(2) 7(4) have reqs: "snapshot_requests (new_calls w w') = map snap (take k shs)"
    by (simp only: snapshot_requests_append append_Nil)
  have "k = min 5 (length shs)"
    if "\<forall>c \<in> set (new_calls w w'). passes c" "\<forall>a \<in> set (new_writes w w'). snd a = Stored"
    using that 7(5) nc nw by auto
  with reqs 7(3) run show ?thesis
    by (auto simp: min.commute take_min_length)
qed

theorem thumbnail_requests_witness:
  "snapshot_requests (new_calls start (snd (browse_project studio ''Project'' None start)))
     = map snap (take 5 studio_shots) \<and>
   length (snapshot_requests (new_calls start (snd (browse_project studio ''Project'' None start))))
     = min (length studio_shots) 5"
proof -
  have ne: "[group_A, group_B] \<noteq> []" by simp
  have tg: "target_group None [group_A, group_B] = Some group_B"
    by (simp add: target_group_def)
  have ok: "\<forall>c \<in> set (new_calls start (snd (browse_project studio ''Project'' None start))). passes c"
    by (simp add: studio_trace)
  have st: "\<forall>a \<in> set (new_writes start (snd (browse_project studio ''Project'' None start))).
              snd a = Stored"
    by (simp add: studio_new_writes)
  from thumbnail_requests [OF studio_info studio_enter studio_groups ne tg studio_select
      studio_construct studio_all_shots] ok st
  show ?thesis by blast
qed

text \<open>
  C5 as stated fails when a snapshot request raises another exception: with three shots
  collected and the connection dropping on the second snapshot, two requests are issued,
  not three.
\<close>

theorem thumbnail_requests_counterexample:
  "get_all_shots studio_dropping after_construct = (Inr studio_shots, after_shots) \<and>
   length studio_shots = 3 \<and>
   snapshot_requests (new_calls start (snd (browse_project studio_dropping ''Project'' None start)))
     = [snap (make_shot_info 0 0 shot_a1), snap (make_shot_info 0 1 shot_a2)]"
  by (simp add: after_shots_def after_construct_def after_select_def after_groups_def
        after_enter_def after_info_def studio_shots_def studio_dropping_def snap_def
        snapshot_requests_def operation_defs session_defs)

end
